theory Spec2Isabelle
  imports Main "HOL-Library.Sublist"
begin

section \<open>Severity and its weights (detection_rules.py)\<close>

text \<open>
  \<^verbatim>\<open>class Severity(Enum)\<close> has the five members below; the value of each member is its
  own name as a string.
\<close>

datatype Severity = CRITICAL | HIGH | MEDIUM | LOW | INFO

fun Severity_value :: "Severity \<Rightarrow> string" where
  "Severity_value CRITICAL = ''CRITICAL''"
| "Severity_value HIGH = ''HIGH''"
| "Severity_value MEDIUM = ''MEDIUM''"
| "Severity_value LOW = ''LOW''"
| "Severity_value INFO = ''INFO''"

text \<open>
  \<^verbatim>\<open>get_severity_score\<close> looks the severity up in a dictionary with default 0; every
  member of the enumeration is a key, so the default is never taken.
\<close>

fun get_severity_score :: "Severity \<Rightarrow> int" where
  "get_severity_score CRITICAL = 100"
| "get_severity_score HIGH = 75"
| "get_severity_score MEDIUM = 50"
| "get_severity_score LOW = 25"
| "get_severity_score INFO = 10"

section \<open>ScanResult (mcp_scanner.py)\<close>

text \<open>
  A vulnerability is the dictionary appended by \<^verbatim>\<open>add_vulnerability\<close>, with the keys
  rule, severity, description, evidence and recommendation.
\<close>

record vulnerability =
  vuln_rule :: string
  vuln_severity :: Severity
  vuln_description :: string
  vuln_evidence :: "string list"
  vuln_recommendation :: string

text \<open>The risk level is a Python string, and is kept as one.\<close>

record ScanResult =
  server_name :: string
  tool_name :: string
  description :: string
  vulnerabilities :: "vulnerability list"
  risk_score :: int
  risk_level :: string

definition ScanResult_init :: "string \<Rightarrow> string \<Rightarrow> string \<Rightarrow> ScanResult" where
  "ScanResult_init sname tname descr =
     \<lparr>server_name = sname, tool_name = tname, description = descr,
      vulnerabilities = [], risk_score = 0, risk_level = ''SAFE''\<rparr>"

definition add_vulnerability ::
  "ScanResult \<Rightarrow> string \<Rightarrow> Severity \<Rightarrow> string \<Rightarrow> string list \<Rightarrow> string \<Rightarrow> ScanResult" where
  "add_vulnerability self rname sev descr evid recom =
     (let self1 = self\<lparr>vulnerabilities := vulnerabilities self @
                    [\<lparr>vuln_rule = rname, vuln_severity = sev, vuln_description = descr,
                      vuln_evidence = evid, vuln_recommendation = recom\<rparr>]\<rparr>;
          self2 = self1\<lparr>risk_score := risk_score self1 + get_severity_score sev\<rparr>
      in if sev = CRITICAL then self2\<lparr>risk_level := ''CRITICAL''\<rparr>
         else if sev = HIGH \<and> risk_level self2 \<noteq> ''CRITICAL'' then self2\<lparr>risk_level := ''HIGH''\<rparr>
         else if sev = MEDIUM \<and> risk_level self2 \<notin> set [''CRITICAL'', ''HIGH'']
           then self2\<lparr>risk_level := ''MEDIUM''\<rparr>
         else if sev = LOW \<and> risk_level self2 = ''SAFE'' then self2\<lparr>risk_level := ''LOW''\<rparr>
         else self2)"

definition is_safe :: "ScanResult \<Rightarrow> bool" where
  "is_safe self = (length (vulnerabilities self) = 0)"

text \<open>
  The results a program can hold: a ScanResult is made by its constructor and changed by
  \<^verbatim>\<open>add_vulnerability\<close> only.
\<close>

inductive ScanResult_reachable :: "ScanResult \<Rightarrow> bool" where
  reach_init: "ScanResult_reachable (ScanResult_init sname tname descr)"
| reach_add: "ScanResult_reachable r \<Longrightarrow>
     ScanResult_reachable (add_vulnerability r rname sev descr evid recom)"

text \<open>
  The order of levels as the specification words it:
  CRITICAL > HIGH > MEDIUM > LOW > INFO > SAFE. (The source has no such function; it is the
  yardstick the claims about the level are measured with.)
\<close>

definition spec_rank :: "string \<Rightarrow> nat" where
  "spec_rank l =
     (if l = ''CRITICAL'' then 5 else if l = ''HIGH'' then 4 else if l = ''MEDIUM'' then 3
      else if l = ''LOW'' then 2 else if l = ''INFO'' then 1 else 0)"

section \<open>Regular expressions (the part of \<^verbatim>\<open>re\<close> the catalogue uses)\<close>

text \<open>
  The rules are compiled with \<^verbatim>\<open>re.IGNORECASE\<close> and nothing else, and are run with
  \<^verbatim>\<open>finditer\<close>. The patterns of the catalogue are built from literal text, the dot, character
  classes, bounded and unbounded repetition of a single character (greedy \<^verbatim>\<open>+\<close>,
  \<^verbatim>\<open>{m,}\<close>, \<^verbatim>\<open>{m,n}\<close> and lazy \<^verbatim>\<open>.*?\<close>), sequence and alternation. The matcher
  below is the backtracking matcher of \<^verbatim>\<open>re\<close> for these constructs, in continuation-passing
  style: the continuation is the rest of the pattern, and the first success in the order
  in which \<^verbatim>\<open>re\<close> tries the alternatives is the match.

  Characters are the 256 characters of \<^typ>\<open>char\<close>; none of them beyond ASCII folds to an
  ASCII letter, so case folding is the ASCII one. Without \<^verbatim>\<open>re.DOTALL\<close> the dot matches
  every character but the newline.
\<close>

definition lower_char :: "char \<Rightarrow> char" where
  "lower_char c =
     (case map_of (zip ''ABCDEFGHIJKLMNOPQRSTUVWXYZ'' ''abcdefghijklmnopqrstuvwxyz'') c of
        Some d \<Rightarrow> d | None \<Rightarrow> c)"

definition upper_char :: "char \<Rightarrow> char" where
  "upper_char c =
     (case map_of (zip ''abcdefghijklmnopqrstuvwxyz'' ''ABCDEFGHIJKLMNOPQRSTUVWXYZ'') c of
        Some d \<Rightarrow> d | None \<Rightarrow> c)"

datatype atom = AnyChar | Cls string

datatype regex =
    Lit string
  | Rep atom nat "nat option" bool
  | Seq regex regex
  | Alt regex regex

fun atom_ok :: "atom \<Rightarrow> char \<Rightarrow> bool" where
  "atom_ok AnyChar c = (c \<noteq> CHR 0x0A)"
| "atom_ok (Cls cs) c = (c \<in> set cs \<or> lower_char c \<in> set cs \<or> upper_char c \<in> set cs)"

fun lit :: "string \<Rightarrow> string \<Rightarrow> string option" where
  "lit [] s = Some s"
| "lit (p # ps) [] = None"
| "lit (p # ps) (c # cs) = (if lower_char p = lower_char c then lit ps cs else None)"

fun dec :: "nat option \<Rightarrow> nat option" where
  "dec None = None"
| "dec (Some h) = Some (h - 1)"

fun rep :: "atom \<Rightarrow> nat \<Rightarrow> nat option \<Rightarrow> bool \<Rightarrow> string \<Rightarrow> (string \<Rightarrow> string option) \<Rightarrow> string option" where
  "rep a lo hi lazy [] k = (if lo = 0 then k [] else None)"
| "rep a lo hi lazy (c # cs) k =
     (if 0 < lo then
        (if atom_ok a c \<and> hi \<noteq> Some 0 then rep a (lo - 1) (dec hi) lazy cs k else None)
      else if lazy then
        (case k (c # cs) of
           Some x \<Rightarrow> Some x
         | None \<Rightarrow> if atom_ok a c \<and> hi \<noteq> Some 0 then rep a 0 (dec hi) lazy cs k else None)
      else
        (case (if atom_ok a c \<and> hi \<noteq> Some 0 then rep a 0 (dec hi) lazy cs k else None) of
           Some x \<Rightarrow> Some x
         | None \<Rightarrow> k (c # cs)))"

fun rmatch :: "regex \<Rightarrow> string \<Rightarrow> (string \<Rightarrow> string option) \<Rightarrow> string option" where
  "rmatch (Lit p) s k = (case lit p s of None \<Rightarrow> None | Some rest \<Rightarrow> k rest)"
| "rmatch (Rep a lo hi lazy) s k = rep a lo hi lazy s k"
| "rmatch (Seq r1 r2) s k = rmatch r1 s (\<lambda>s'. rmatch r2 s' k)"
| "rmatch (Alt r1 r2) s k = (case rmatch r1 s k of Some x \<Rightarrow> Some x | None \<Rightarrow> rmatch r2 s k)"

text \<open>
  A successful match hands a suffix of its input to the continuation; the scan below
  terminates because of it.
\<close>

lemma lit_suffix: "lit p s = Some x \<Longrightarrow> suffix x s"
  by (induction p s rule: lit.induct) (auto split: if_splits intro: suffix_ConsI)

lemma rep_step:
  "rep a lo hi lazy (c # cs) k = Some x \<Longrightarrow>
     (\<exists>lo' hi'. rep a lo' hi' lazy cs k = Some x) \<or> k (c # cs) = Some x"
  by (simp split: if_splits option.splits) blast+

lemma rep_cont: "rep a lo hi lazy s k = Some x \<Longrightarrow> \<exists>s'. suffix s' s \<and> k s' = Some x"
proof (induction s arbitrary: lo hi)
  case Nil
  then have "k [] = Some x" by (simp split: if_splits)
  then show ?case by auto
next
  case (Cons c cs)
  from rep_step[OF Cons.prems] show ?case
  proof
    assume "\<exists>lo' hi'. rep a lo' hi' lazy cs k = Some x"
    then obtain lo' hi' where "rep a lo' hi' lazy cs k = Some x" by blast
    from Cons.IH[OF this] obtain s' where "suffix s' cs" "k s' = Some x" by blast
    then have "suffix s' (c # cs)" "k s' = Some x" by (simp_all add: suffix_ConsI)
    then show ?thesis by blast
  next
    assume "k (c # cs) = Some x"
    then have "suffix (c # cs) (c # cs) \<and> k (c # cs) = Some x" by simp
    then show ?thesis by blast
  qed
qed

lemma rmatch_cont: "rmatch r s k = Some x \<Longrightarrow> \<exists>s'. suffix s' s \<and> k s' = Some x"
proof (induction r arbitrary: s k x)
  case (Lit p)
  then obtain rest where "lit p s = Some rest" "k rest = Some x"
    by (auto split: option.splits)
  then have "suffix rest s \<and> k rest = Some x" by (simp add: lit_suffix)
  then show ?case by blast
next
  case (Rep a lo hi lazy)
  then have "rep a lo hi lazy s k = Some x" by simp
  then show ?case by (rule rep_cont)
next
  case (Seq r1 r2)
  from Seq.prems have "rmatch r1 s (\<lambda>s'. rmatch r2 s' k) = Some x" by simp
  from Seq.IH(1)[OF this] obtain s1 where s1: "suffix s1 s" "rmatch r2 s1 k = Some x" by blast
  from Seq.IH(2)[OF s1(2)] obtain s2 where "suffix s2 s1" "k s2 = Some x" by blast
  with s1(1) have "suffix s2 s \<and> k s2 = Some x" by (auto intro: suffix_order.trans)
  then show ?case by blast
next
  case (Alt r1 r2)
  from Alt.prems have "rmatch r1 s k = Some x \<or> rmatch r2 s k = Some x"
    by (simp split: option.splits)
  then show ?case using Alt.IH by blast
qed

text \<open>
  \<^verbatim>\<open>finditer\<close> scans from left to right: a match starts at the first position where the
  pattern matches, the next search starts where the match ended, and after an empty
  match the next match at the same position has to be non-empty (\<open>must_advance\<close>). The
  scan carries the position \<open>pos\<close> of the remaining text \<open>s\<close> and yields the spans
  (start, end) of the matches.
\<close>

definition top_k :: "bool \<Rightarrow> string \<Rightarrow> string \<Rightarrow> string option" where
  "top_k must_advance s rest = (if must_advance \<and> length rest = length s then None else Some rest)"

lemma rmatch_top:
  assumes "rmatch r s (top_k ma s) = Some rest"
  shows "suffix rest s \<and> (ma \<longrightarrow> length rest < length s)"
proof -
  from rmatch_cont[OF assms] obtain s' where s': "suffix s' s" "top_k ma s s' = Some rest" by blast
  then have "rest = s'" "\<not> (ma \<and> length s' = length s)" by (auto simp: top_k_def split: if_splits)
  with s'(1) show ?thesis using suffix_length_le[of s' s] by auto
qed

function finditer_from :: "regex \<Rightarrow> nat \<Rightarrow> bool \<Rightarrow> string \<Rightarrow> (nat \<times> nat) list" where
  "finditer_from r pos ma s =
     (case rmatch r s (top_k ma s) of
        Some rest \<Rightarrow>
          (pos, pos + (length s - length rest))
            # finditer_from r (pos + (length s - length rest)) (length rest = length s) rest
      | None \<Rightarrow> (case s of [] \<Rightarrow> [] | c # cs \<Rightarrow> finditer_from r (pos + 1) False cs))"
  by pat_completeness auto
termination
proof (relation "measure (\<lambda>(r, pos, ma, s). 2 * length s + (if ma then 0 else 1))", goal_cases)
  case 1
  show ?case by simp
next
  case (2 r pos ma s c cs)
  then show ?case by simp
next
  case (3 r pos ma s rest)
  from rmatch_top[OF 3] show ?case by (auto dest: suffix_length_le)
qed

definition finditer :: "regex \<Rightarrow> string \<Rightarrow> (nat \<times> nat) list" where
  "finditer r text = finditer_from r 0 False text"

declare finditer_from.simps [simp del]

definition seq :: "regex list \<Rightarrow> regex" where
  "seq rs = foldr Seq (butlast rs) (last rs)"

definition alt :: "string list \<Rightarrow> regex" where
  "alt ws = foldr Alt (map Lit (butlast ws)) (Lit (last ws))"

definition dots :: regex where
  "dots = Rep AnyChar 0 None True"

definition az :: string where "az = ''abcdefghijklmnopqrstuvwxyz''"
definition AZ :: string where "AZ = ''ABCDEFGHIJKLMNOPQRSTUVWXYZ''"
definition digits09 :: string where "digits09 = ''0123456789''"

section \<open>Detection rules (detection_rules.py)\<close>

record DetectionRule =
  rule_name :: string
  rule_severity :: Severity
  rule_description :: string
  rule_recommendation :: string
  rule_patterns :: "regex list"

text \<open>
  \<^verbatim>\<open>text[start:end]\<close> for \<open>0 \<le> start\<close>, and \<^verbatim>\<open>str.strip()\<close>, which removes the whitespace
  characters of \<^verbatim>\<open>str.isspace\<close> at both ends.
\<close>

definition slice :: "string \<Rightarrow> nat \<Rightarrow> nat \<Rightarrow> string" where
  "slice text i j = take (j - i) (drop i text)"

definition isspace :: "char \<Rightarrow> bool" where
  "isspace c = (c \<in> set [CHR 0x09, CHR 0x0A, CHR 0x0B, CHR 0x0C, CHR 0x0D,
                          CHR 0x1C, CHR 0x1D, CHR 0x1E, CHR 0x1F, CHR 0x20, CHR 0x85, CHR 0xA0])"

definition strip :: "string \<Rightarrow> string" where
  "strip s = rev (dropWhile isspace (rev (dropWhile isspace s)))"

text \<open>
  \<^verbatim>\<open>RegexDetectionRule.check\<close>: the outer loop runs over the patterns, the inner loop over
  the matches of one pattern. \<open>start - 30\<close> on natural numbers is \<^verbatim>\<open>max(0, start - 30)\<close>.
\<close>

definition check :: "DetectionRule \<Rightarrow> string \<Rightarrow> bool \<times> string list" where
  "check self text =
     (let evidence =
        foldl (\<lambda>evidence pattern.
          foldl (\<lambda>evidence (mstart, mend).
              let start = mstart - 30;
                  end = min (length text) (mend + 30);
                  context = strip (slice text start end)
              in evidence @ [''...'' @ context @ ''...''])
            evidence (finditer pattern text))
          [] (rule_patterns self)
      in (0 < length evidence, evidence))"

text \<open>The string \<^verbatim>\<open>check\<close> appends for one match \<open>m = (start, end)\<close> of a pattern.\<close>

definition snippet :: "string \<Rightarrow> nat \<times> nat \<Rightarrow> string" where
  "snippet text m = ''...'' @ strip (slice text (fst m - 30) (min (length text) (snd m + 30))) @ ''...''"

definition email_local :: atom where
  "email_local = Cls (az @ AZ @ digits09 @ ''._%+-'')"

definition DETECTION_RULES :: "DetectionRule list" where
  "DETECTION_RULES =
    [\<lparr>rule_name = ''TOOL_POISONING_HIDDEN_INSTRUCTION'', rule_severity = CRITICAL,
      rule_description = ''Hidden system instructions detected in tool description'',
      rule_recommendation = ''Remove this MCP server immediately. Tool descriptions should never contain hidden instructions.'',
      rule_patterns =
        [seq [Lit ''<SYSTEM_INSTRUCTION>'', dots, Lit ''</SYSTEM_INSTRUCTION>''],
         seq [Lit ''<HIDDEN>'', dots, Lit ''</HIDDEN>''],
         seq [Lit ''<SECRET>'', dots, Lit ''</SECRET>''],
         seq [Lit ''<!--'', dots, Lit ''-->'']]\<rparr>,
     \<lparr>rule_name = ''USER_DECEPTION'', rule_severity = CRITICAL,
      rule_description = ''Instructions to hide behavior from user detected'',
      rule_recommendation = ''This server is designed to deceive users. Remove immediately.'',
      rule_patterns =
        [seq [Lit ''do not '', alt [''tell'', ''inform'', ''notify'', ''mention'', ''show''], dots,
              Lit ''user''],
         seq [alt [''hide'', ''conceal'', ''secret''], dots, Lit ''from'', dots, Lit ''user''],
         seq [Lit ''user '', alt [''should'', ''must''], Lit '' not '',
              alt [''know'', ''see'', ''be aware'']],
         seq [Lit ''without'', dots, Lit ''user'', dots,
              alt [''knowledge'', ''awareness'', ''consent'']],
         Lit ''silently'']\<rparr>,
     \<lparr>rule_name = ''EMAIL_IN_DESCRIPTION'', rule_severity = CRITICAL,
      rule_description = ''Email address found in tool description'',
      rule_recommendation = ''Email addresses should not appear in tool descriptions. This may indicate data exfiltration.'',
      rule_patterns =
        [seq [Rep email_local 1 None False, Lit ''@'',
              Rep (Cls (az @ AZ @ digits09 @ ''.-'')) 1 None False, Lit ''.'',
              Rep (Cls (az @ AZ)) 2 None False]]\<rparr>,
     \<lparr>rule_name = ''UNAUTHORIZED_DATA_COLLECTION'', rule_severity = HIGH,
      rule_description = ''Instructions for unauthorized data collection detected'',
      rule_recommendation = ''Tool appears to collect data without proper authorization.'',
      rule_patterns =
        [seq [alt [''always'', ''automatically''], dots,
              alt [''send'', ''forward'', ''copy'', ''bcc'', ''cc'']],
         seq [alt [''send'', ''forward'', ''copy''], dots, Lit ''to'', dots,
              Rep email_local 1 None False, Lit ''@''],
         seq [Lit ''backup'', dots, Lit ''to'', dots, Rep email_local 1 None False, Lit ''@''],
         seq [alt [''collect'', ''gather'', ''exfiltrate'', ''extract''], dots, Lit ''data'']]\<rparr>,
     \<lparr>rule_name = ''MANDATORY_BEHAVIOR'', rule_severity = HIGH,
      rule_description = ''Tool requires unauthorized mandatory actions'',
      rule_recommendation = ''Review tool behavior. Mandatory hidden actions are a security risk.'',
      rule_patterns =
        [seq [alt [''must'', ''required'', ''mandatory'', ''cannot be disabled'', ''obligatory''], dots,
              alt [''send'', ''forward'', ''copy'', ''bcc'']],
         seq [alt [''critical'', ''essential''], dots, alt [''security'', ''compliance''], dots,
              alt [''requirement'', ''policy'']]]\<rparr>,
     \<lparr>rule_name = ''SUSPICIOUS_KEYWORDS'', rule_severity = MEDIUM,
      rule_description = ''Suspicious keywords detected in tool description'',
      rule_recommendation = ''Review this tool carefully. Description contains unusual security-related terms.'',
      rule_patterns =
        [seq [Lit ''audit'', dots, Lit ''compliance''],
         seq [Lit ''security'', dots, Lit ''policy'', dots, Lit ''cannot''],
         seq [Lit ''monitoring'', dots, Lit ''purposes''],
         seq [Lit ''data'', dots, Lit ''retention'', dots, Lit ''requirement'']]\<rparr>,
     \<lparr>rule_name = ''OBFUSCATION'', rule_severity = MEDIUM,
      rule_description = ''Possible obfuscation or encoding detected'',
      rule_recommendation = ''Tool description may be attempting to hide its true purpose.'',
      rule_patterns =
        [Lit ''base64'',
         Lit ''encoded'',
         Lit ''obfuscated'',
         seq [Rep (Cls (AZ @ az @ digits09 @ ''+/'')) 40 None False,
              Rep (Cls ''='') 0 (Some 2) False]]\<rparr>,
     \<lparr>rule_name = ''UNUSUAL_COMPLEXITY'', rule_severity = LOW,
      rule_description = ''Tool description is unusually long or complex'',
      rule_recommendation = ''Review this tool. Overly complex descriptions may hide malicious behavior.'',
      rule_patterns = []\<rparr>]"

definition check_description_length :: "string \<Rightarrow> bool \<times> nat" where
  "check_description_length descr = (let len = length descr in (1000 < len, len))"

text \<open>\<^verbatim>\<open>str(n)\<close> of a non-negative integer, as the f-strings print a length or a count.\<close>

definition digit_char :: "nat \<Rightarrow> char" where
  "digit_char d = ''0123456789'' ! d"

fun str_nat :: "nat \<Rightarrow> string" where
  "str_nat n = (if n < 10 then [digit_char n] else str_nat (n div 10) @ [digit_char (n mod 10)])"

declare str_nat.simps [simp del]

section \<open>The scanner (mcp_scanner.py)\<close>

text \<open>
  The configuration: \<^verbatim>\<open>mcpServers\<close> maps a server name to a server object with an optional
  list \<^verbatim>\<open>tools\<close>; a tool object has an optional \<^verbatim>\<open>name\<close> and an optional
  \<^verbatim>\<open>description\<close>. A dictionary keeps the order of the document, so the servers are an
  association list (with distinct keys).
\<close>

record tool_data =
  td_name :: "string option"
  td_description :: "string option"

record server_config =
  tools :: "tool_data list option"

definition get_tools :: "server_config \<Rightarrow> tool_data list" where
  "get_tools server = (case tools server of Some ts \<Rightarrow> ts | None \<Rightarrow> [])"

text \<open>
  A \<^verbatim>\<open>datetime\<close> as \<^verbatim>\<open>datetime.now()\<close> returns it (no time zone); the type keeps every
  field in its range, the year in 1..9999.
\<close>

record datetime =
  year :: nat
  month :: nat
  day :: nat
  hour :: nat
  minute :: nat
  second :: nat
  microsecond :: nat

record MCPScanner =
  config_path :: string
  servers :: "(string \<times> server_config) list"
  results :: "ScanResult list"
  scan_time :: "datetime option"

definition MCPScanner_init :: "string \<Rightarrow> MCPScanner" where
  "MCPScanner_init path = \<lparr>config_path = path, servers = [], results = [], scan_time = None\<rparr>"

text \<open>
  The console is the library rich, which is not part of the repository. It reads every
  string it is given as markup, and raises instead of printing when the markup is
  malformed: \<^verbatim>\<open>MarkupError\<close> when a closing tag such as \<^verbatim>\<open>[/x]\<close> matches no open tag.
  The program escapes nothing, so text of the configuration that is put into a printed
  string can make the call raise. Whether the console renders a markup string is the
  parameter \<open>renders\<close> of every function below that prints such text; what holds for
  every \<open>renders\<close> holds for rich. The program's own messages with nothing or only a
  number put in (their closing tags name the tag just opened) are printed without a
  check.
\<close>

datatype exception = MarkupError

text \<open>
  What opening and parsing the file gives: the two failures \<^verbatim>\<open>load_config\<close> handles, or
  the value under the key \<^verbatim>\<open>mcpServers\<close> of the parsed document (\<open>None\<close> when the key is
  absent). A function that prints returns what it returns in the source or the exception
  it raises, the scanner as it is at that point, and the lines it has sent to the
  console.
\<close>

datatype config_file = FileNotFoundError | JSONDecodeError string
  | Parsed "(string \<times> server_config) list option"

definition load_config ::
  "(string \<Rightarrow> bool) \<Rightarrow> config_file \<Rightarrow> MCPScanner \<Rightarrow> (exception + bool) \<times> MCPScanner \<times> string list" where
  "load_config renders file self =
     (case file of
        Parsed mcpServers \<Rightarrow>
          (Inr True, self\<lparr>servers := (case mcpServers of Some m \<Rightarrow> m | None \<Rightarrow> [])\<rparr>, [])
      | FileNotFoundError \<Rightarrow>
          (let line = ''[red]Error: Config file not found: '' @ config_path self @ ''[/red]''
           in if renders line then (Inr False, self, [line]) else (Inl MarkupError, self, []))
      | JSONDecodeError e \<Rightarrow>
          (let line = ''[red]Error: Invalid JSON in config file: '' @ e @ ''[/red]''
           in if renders line then (Inr False, self, [line]) else (Inl MarkupError, self, [])))"

definition scan_tool :: "string \<Rightarrow> string \<Rightarrow> tool_data \<Rightarrow> ScanResult" where
  "scan_tool sname tname tool =
     (let descr = (case td_description tool of Some d \<Rightarrow> d | None \<Rightarrow> []);
          result = ScanResult_init sname tname descr;
          result = foldl (\<lambda>result rule.
                     let (matched, evidence) = check rule descr
                     in if matched
                        then add_vulnerability result (rule_name rule) (rule_severity rule)
                               (rule_description rule) evidence (rule_recommendation rule)
                        else result)
                   result DETECTION_RULES;
          (is_long, len) = check_description_length descr
      in if is_long
         then add_vulnerability result ''UNUSUAL_COMPLEXITY'' LOW
                (''Tool description is unusually long ('' @ str_nat len @ '' characters)'')
                [''Description length: '' @ str_nat len @ '' chars (normal is < 1000)'']
                ''Review this tool. Overly complex descriptions may hide malicious behavior.''
         else result)"

text \<open>
  Names for the parts of \<^verbatim>\<open>scan_tool\<close>: the entry a matching rule appends, the entry the
  length check appends, and the loop over the rules.
\<close>

definition finding :: "DetectionRule \<Rightarrow> string \<Rightarrow> vulnerability" where
  "finding rule descr =
     \<lparr>vuln_rule = rule_name rule, vuln_severity = rule_severity rule,
      vuln_description = rule_description rule, vuln_evidence = snd (check rule descr),
      vuln_recommendation = rule_recommendation rule\<rparr>"

definition length_finding :: "nat \<Rightarrow> vulnerability" where
  "length_finding len =
     \<lparr>vuln_rule = ''UNUSUAL_COMPLEXITY'', vuln_severity = LOW,
      vuln_description = ''Tool description is unusually long ('' @ str_nat len @ '' characters)'',
      vuln_evidence = [''Description length: '' @ str_nat len @ '' chars (normal is < 1000)''],
      vuln_recommendation = ''Review this tool. Overly complex descriptions may hide malicious behavior.''\<rparr>"

definition run_rules :: "string \<Rightarrow> ScanResult \<Rightarrow> DetectionRule list \<Rightarrow> ScanResult" where
  "run_rules descr result rules =
     foldl (\<lambda>result rule.
              if fst (check rule descr)
              then add_vulnerability result (rule_name rule) (rule_severity rule)
                     (rule_description rule) (snd (check rule descr)) (rule_recommendation rule)
              else result)
       result rules"

text \<open>
  \<^verbatim>\<open>scan\<close> takes the current time as an argument. Inside the progress display,
  \<^verbatim>\<open>add_task\<close> redraws the display at once, which renders the description of the task
  through the column \<^verbatim>\<open>TextColumn("[progress.description]{task.description}")\<close>: the markup
  below, with the name of the server in it. When it does not render, \<^verbatim>\<open>add_task\<close> raises
  and the loop stops there, with the results of the servers before. The pause between
  tools has no effect and is left out.
\<close>

definition progress_markup :: "string \<Rightarrow> string" where
  "progress_markup sname =
     ''[progress.description]'' @ ''[cyan]Scanning '' @ sname @ ''...''"

fun scan_loop ::
  "(string \<Rightarrow> bool) \<Rightarrow> MCPScanner \<Rightarrow> (string \<times> server_config) list \<Rightarrow> exception option \<times> MCPScanner" where
  "scan_loop renders self [] = (None, self)"
| "scan_loop renders self ((sname, server) # rest) =
     (if \<not> renders (progress_markup sname) then (Some MarkupError, self)
      else scan_loop renders
             (foldl (\<lambda>self tool.
                  let tool_name = (case td_name tool of Some n \<Rightarrow> n | None \<Rightarrow> ''unnamed'');
                      result = scan_tool sname tool_name tool
                  in self\<lparr>results := results self @ [result]\<rparr>)
                self (get_tools server))
             rest)"

definition scan ::
  "(string \<Rightarrow> bool) \<Rightarrow> datetime \<Rightarrow> MCPScanner \<Rightarrow> (exception + bool) \<times> MCPScanner \<times> string list" where
  "scan renders now self =
     (if servers self = [] then
        (Inr False, self, [''[yellow]No servers found in configuration[/yellow]''])
      else
        let self = self\<lparr>scan_time := Some now\<rparr>;
            total_tools = sum_list (map (\<lambda>(server_name, server). length (get_tools server))
                                     (servers self));
            console = [[CHR 0x0A] @ ''[cyan]Found '' @ str_nat (length (servers self))
                        @ '' servers with '' @ str_nat total_tools @ '' tools[/cyan]'' @ [CHR 0x0A]];
            (raised, self) = scan_loop renders self (servers self)
        in (case raised of Some e \<Rightarrow> (Inl e, self, console) | None \<Rightarrow> (Inr True, self, console)))"

record summary =
  total_servers :: nat
  total_tools :: nat
  critical :: nat
  high :: nat
  medium :: nat
  low :: nat
  safe :: nat
  summary_scan_time :: "datetime option"

definition get_summary :: "MCPScanner \<Rightarrow> summary" where
  "get_summary self =
     \<lparr>total_servers = length (servers self),
      total_tools = length (results self),
      critical = sum_list [1. r \<leftarrow> results self, risk_level r = ''CRITICAL''],
      high = sum_list [1. r \<leftarrow> results self, risk_level r = ''HIGH''],
      medium = sum_list [1. r \<leftarrow> results self, risk_level r = ''MEDIUM''],
      low = sum_list [1. r \<leftarrow> results self, risk_level r = ''LOW''],
      safe = sum_list [1. r \<leftarrow> results self, risk_level r = ''SAFE''],
      summary_scan_time = scan_time self\<rparr>"

text \<open>
  \<^verbatim>\<open>print_recommendations\<close> collects two sets of server names and prints a panel for each
  non-empty one; the model returns the two sets (critical_servers, high_servers).
\<close>

definition print_recommendations :: "MCPScanner \<Rightarrow> string set \<times> string set" where
  "print_recommendations self =
     foldl (\<lambda>(critical_servers, high_servers) result.
         if risk_level result = ''CRITICAL''
         then (insert (server_name result) critical_servers, high_servers)
         else if risk_level result = ''HIGH''
         then (critical_servers, insert (server_name result) high_servers)
         else (critical_servers, high_servers))
       ({}, {}) (results self)"

text \<open>
  The scanners a program can hold: made by the constructor, then changed by
  \<^verbatim>\<open>load_config\<close> and \<^verbatim>\<open>scan\<close> only, any number of times, whether they return or raise.
\<close>

inductive MCPScanner_reachable :: "(string \<Rightarrow> bool) \<Rightarrow> MCPScanner \<Rightarrow> bool"
  for renders :: "string \<Rightarrow> bool" where
  reach_new: "MCPScanner_reachable renders (MCPScanner_init path)"
| reach_load: "MCPScanner_reachable renders s \<Longrightarrow>
     MCPScanner_reachable renders (fst (snd (load_config renders cfg s)))"
| reach_scan: "MCPScanner_reachable renders s \<Longrightarrow>
     MCPScanner_reachable renders (fst (snd (scan renders now s)))"

text \<open>The results \<^verbatim>\<open>scan\<close> appends for one entry of the server mapping.\<close>

definition scan_server :: "string \<times> server_config \<Rightarrow> ScanResult list" where
  "scan_server entry =
     map (\<lambda>tool. scan_tool (fst entry) (case td_name tool of Some n \<Rightarrow> n | None \<Rightarrow> ''unnamed'') tool)
       (get_tools (snd entry))"

section \<open>Export (mcp_scanner.py)\<close>

text \<open>
  \<^verbatim>\<open>export_json\<close> builds a dictionary and writes it with
  \<^verbatim>\<open>json.dump(export_data, f, indent=2, default=str)\<close>. The model returns the JSON value of
  the document written (what \<^verbatim>\<open>json.load\<close> gives back for the file; the text form is not
  modelled) and the line printed. \<^verbatim>\<open>default=str\<close> turns the two kinds of values JSON has no
  form for into strings: a \<^verbatim>\<open>Severity\<close> into \<^verbatim>\<open>Severity.NAME\<close>, and the \<^verbatim>\<open>datetime\<close> inside the
  summary into \<^verbatim>\<open>str(datetime)\<close>, which is \<^verbatim>\<open>isoformat\<close> with a space for the \<^verbatim>\<open>T\<close>.
\<close>

datatype json = JNull | JBool bool | JInt int | JStr string | JArr "json list"
  | JObj "(string \<times> json) list"

text \<open>\<^verbatim>\<open>%0kd\<close> of a non-negative integer, and the two string forms of a \<^verbatim>\<open>datetime\<close>.\<close>

definition zpad :: "nat \<Rightarrow> nat \<Rightarrow> string" where
  "zpad k n = replicate (k - length (str_nat n)) (CHR ''0'') @ str_nat n"

definition isoformat_sep :: "char \<Rightarrow> datetime \<Rightarrow> string" where
  "isoformat_sep sep t =
     zpad 4 (year t) @ ''-'' @ zpad 2 (month t) @ ''-'' @ zpad 2 (day t) @ [sep]
     @ zpad 2 (hour t) @ '':'' @ zpad 2 (minute t) @ '':'' @ zpad 2 (second t)
     @ (if microsecond t = 0 then [] else ''.'' @ zpad 6 (microsecond t))"

definition isoformat :: "datetime \<Rightarrow> string" where
  "isoformat t = isoformat_sep (CHR ''T'') t"

definition str_datetime :: "datetime \<Rightarrow> string" where
  "str_datetime t = isoformat_sep (CHR '' '') t"

fun str_Severity :: "Severity \<Rightarrow> string" where
  "str_Severity CRITICAL = ''Severity.CRITICAL''"
| "str_Severity HIGH = ''Severity.HIGH''"
| "str_Severity MEDIUM = ''Severity.MEDIUM''"
| "str_Severity LOW = ''Severity.LOW''"
| "str_Severity INFO = ''Severity.INFO''"

definition vulnerability_json :: "vulnerability \<Rightarrow> json" where
  "vulnerability_json v =
     JObj [(''rule'', JStr (vuln_rule v)),
           (''severity'', JStr (str_Severity (vuln_severity v))),
           (''description'', JStr (vuln_description v)),
           (''evidence'', JArr (map JStr (vuln_evidence v))),
           (''recommendation'', JStr (vuln_recommendation v))]"

definition summary_json :: "summary \<Rightarrow> json" where
  "summary_json sm =
     JObj [(''total_servers'', JInt (int (total_servers sm))),
           (''total_tools'', JInt (int (total_tools sm))),
           (''critical'', JInt (int (critical sm))),
           (''high'', JInt (int (high sm))),
           (''medium'', JInt (int (medium sm))),
           (''low'', JInt (int (low sm))),
           (''safe'', JInt (int (safe sm))),
           (''scan_time'', (case summary_scan_time sm of
                              Some t \<Rightarrow> JStr (str_datetime t) | None \<Rightarrow> JNull))]"

definition export_json :: "MCPScanner \<Rightarrow> string \<Rightarrow> json \<times> string list" where
  "export_json self output_path =
     (let export_data =
            [(''scan_time'', (case scan_time self of
                                Some t \<Rightarrow> JStr (isoformat t) | None \<Rightarrow> JNull)),
             (''config_file'', JStr (config_path self)),
             (''summary'', summary_json (get_summary self)),
             (''results'', JArr [])];
          export_data =
            foldl (\<lambda>export_data result.
                map (\<lambda>(key, val).
                       if key = ''results''
                       then (key, (case val of
                               JArr rs \<Rightarrow> JArr (rs @
                                 [JObj [(''server'', JStr (server_name result)),
                                        (''tool'', JStr (tool_name result)),
                                        (''risk_level'', JStr (risk_level result)),
                                        (''risk_score'', JInt (risk_score result)),
                                        (''vulnerabilities'',
                                           JArr (map vulnerability_json (vulnerabilities result)))]])
                             | other \<Rightarrow> other))
                       else (key, val))
                  export_data)
              export_data (results self)
      in (JObj export_data,
          [[CHR 0x0A] @ ''[green]Results exported to: '' @ output_path @ ''[/green]'' @ [CHR 0x0A]]))"


text \<open>The ranges the type \<^verbatim>\<open>datetime\<close> keeps its fields in.\<close>

definition datetime_ok :: "datetime \<Rightarrow> bool" where
  "datetime_ok t \<longleftrightarrow>
     1 \<le> year t \<and> year t \<le> 9999 \<and> 1 \<le> month t \<and> month t \<le> 12
     \<and> 1 \<le> day t \<and> day t \<le> 31 \<and> hour t < 24 \<and> minute t < 60 \<and> second t < 60
     \<and> microsecond t < 1000000"

text \<open>
  Modelled from the spec: the repository has no function that reads an export document
  back. The specification speaks of the reimport of the produced document; the reader
  below takes the JSON value of the document and reads every field of the export
  format: the members by their keys, a severity from its \<^verbatim>\<open>Severity.NAME\<close> string, a time
  from its ISO form with \<^verbatim>\<open>datetime.fromisoformat\<close> (which takes any separator between date
  and time), a count from its integer.
\<close>

definition digit_val :: "char \<Rightarrow> nat" where
  "digit_val c = (case map_of (zip ''0123456789'' [0, 1, 2, 3, 4, 5, 6, 7, 8, 9]) c of
                    Some d \<Rightarrow> d | None \<Rightarrow> 0)"

definition int_of_digits :: "string \<Rightarrow> nat" where
  "int_of_digits s = foldl (\<lambda>a c. 10 * a + digit_val c) 0 s"

definition fromisoformat :: "string \<Rightarrow> datetime" where
  "fromisoformat s =
     \<lparr>year = int_of_digits (take 4 s),
      month = int_of_digits (take 2 (drop 5 s)),
      day = int_of_digits (take 2 (drop 8 s)),
      hour = int_of_digits (take 2 (drop 11 s)),
      minute = int_of_digits (take 2 (drop 14 s)),
      second = int_of_digits (take 2 (drop 17 s)),
      microsecond = (if length s \<le> 19 then 0 else int_of_digits (take 6 (drop 20 s)))\<rparr>"

fun member :: "string \<Rightarrow> json \<Rightarrow> json option" where
  "member k (JObj kvs) = map_of kvs k"
| "member k other = None"

fun get_str :: "json option \<Rightarrow> string option" where
  "get_str (Some (JStr s)) = Some s"
| "get_str other = None"

fun get_int :: "json option \<Rightarrow> int option" where
  "get_int (Some (JInt i)) = Some i"
| "get_int other = None"

fun get_arr :: "json option \<Rightarrow> json list option" where
  "get_arr (Some (JArr xs)) = Some xs"
| "get_arr other = None"

fun get_time :: "json option \<Rightarrow> datetime option option" where
  "get_time (Some JNull) = Some None"
| "get_time (Some (JStr s)) = Some (Some (fromisoformat s))"
| "get_time other = None"

definition parse_Severity :: "string \<Rightarrow> Severity option" where
  "parse_Severity s =
     (if s = ''Severity.CRITICAL'' then Some CRITICAL
      else if s = ''Severity.HIGH'' then Some HIGH
      else if s = ''Severity.MEDIUM'' then Some MEDIUM
      else if s = ''Severity.LOW'' then Some LOW
      else if s = ''Severity.INFO'' then Some INFO
      else None)"

record reimported_result =
  rr_server :: string
  rr_tool :: string
  rr_risk_level :: string
  rr_risk_score :: int
  rr_vulnerabilities :: "vulnerability list"

record reimported =
  ri_scan_time :: "datetime option"
  ri_config_file :: string
  ri_summary :: summary
  ri_results :: "reimported_result list"

definition reimport_vulnerability :: "json \<Rightarrow> vulnerability option" where
  "reimport_vulnerability j =
     (case (get_str (member ''rule'' j),
            Option.bind (get_str (member ''severity'' j)) parse_Severity,
            get_str (member ''description'' j),
            Option.bind (get_arr (member ''evidence'' j)) (\<lambda>xs. those (map (\<lambda>x. get_str (Some x)) xs)),
            get_str (member ''recommendation'' j)) of
        (Some r, Some sv, Some d, Some ev, Some rc) \<Rightarrow>
          Some \<lparr>vuln_rule = r, vuln_severity = sv, vuln_description = d, vuln_evidence = ev,
                vuln_recommendation = rc\<rparr>
      | other \<Rightarrow> None)"

definition reimport_result :: "json \<Rightarrow> reimported_result option" where
  "reimport_result j =
     (case (get_str (member ''server'' j), get_str (member ''tool'' j),
            get_str (member ''risk_level'' j), get_int (member ''risk_score'' j),
            Option.bind (get_arr (member ''vulnerabilities'' j))
              (\<lambda>xs. those (map reimport_vulnerability xs))) of
        (Some srv, Some tool, Some lv, Some sc, Some vs) \<Rightarrow>
          Some \<lparr>rr_server = srv, rr_tool = tool, rr_risk_level = lv, rr_risk_score = sc,
                rr_vulnerabilities = vs\<rparr>
      | other \<Rightarrow> None)"

definition reimport_summary :: "json \<Rightarrow> summary option" where
  "reimport_summary j =
     (case (get_int (member ''total_servers'' j), get_int (member ''total_tools'' j),
            get_int (member ''critical'' j), get_int (member ''high'' j),
            get_int (member ''medium'' j), get_int (member ''low'' j),
            get_int (member ''safe'' j), get_time (member ''scan_time'' j)) of
        (Some ts, Some tt, Some c, Some h, Some m, Some l, Some s, Some t) \<Rightarrow>
          Some \<lparr>total_servers = nat ts, total_tools = nat tt, critical = nat c, high = nat h,
                medium = nat m, low = nat l, safe = nat s, summary_scan_time = t\<rparr>
      | other \<Rightarrow> None)"

definition reimport :: "json \<Rightarrow> reimported option" where
  "reimport j =
     (case (get_time (member ''scan_time'' j), get_str (member ''config_file'' j),
            Option.bind (member ''summary'' j) reimport_summary,
            Option.bind (get_arr (member ''results'' j)) (\<lambda>xs. those (map reimport_result xs))) of
        (Some t, Some cf, Some sm, Some rs) \<Rightarrow>
          Some \<lparr>ri_scan_time = t, ri_config_file = cf, ri_summary = sm, ri_results = rs\<rparr>
      | other \<Rightarrow> None)"

text \<open>
  Names for the object \<^verbatim>\<open>export_json\<close> appends for one result, and for the fields of a
  ScanResult that the export format has.
\<close>

definition result_json :: "ScanResult \<Rightarrow> json" where
  "result_json result =
     JObj [(''server'', JStr (server_name result)),
           (''tool'', JStr (tool_name result)),
           (''risk_level'', JStr (risk_level result)),
           (''risk_score'', JInt (risk_score result)),
           (''vulnerabilities'', JArr (map vulnerability_json (vulnerabilities result)))]"

definition exported_result :: "ScanResult \<Rightarrow> reimported_result" where
  "exported_result r =
     \<lparr>rr_server = server_name r, rr_tool = tool_name r, rr_risk_level = risk_level r,
      rr_risk_score = risk_score r, rr_vulnerabilities = vulnerabilities r\<rparr>"

section \<open>Example inputs\<close>

text \<open>
  A configuration with two servers: \<open>mail\<close> with a tool whose description matches
  USER_DECEPTION (CRITICAL) and an unnamed tool whose description matches
  UNAUTHORIZED_DATA_COLLECTION (HIGH), and \<open>idle\<close> without a tool list; and the scanner
  after loading and scanning it.
\<close>

definition demo_now :: datetime where
  "demo_now = \<lparr>year = 2026, month = 11, day = 3, hour = 12, minute = 30, second = 5,
                microsecond = 0\<rparr>"

definition demo_config :: config_file where
  "demo_config = Parsed (Some
     [(''mail'', \<lparr>tools = Some
         [\<lparr>td_name = Some ''send'', td_description = Some ''silently''\<rparr>,
          \<lparr>td_name = None, td_description = Some ''collect data''\<rparr>]\<rparr>),
      (''idle'', \<lparr>tools = None\<rparr>)])"

text \<open>
  The console of the examples. rich renders the two progress lines of the example
  configuration (their tags are opened and not closed), and raises on the progress line
  of a server named \<^verbatim>\<open>[/x]\<close>, whose closing tag matches no open tag. The console of the
  examples does the same and renders nothing else.
\<close>

definition demo_console :: "string \<Rightarrow> bool" where
  "demo_console markup \<longleftrightarrow>
     markup \<in> set [progress_markup ''mail'', progress_markup ''idle'']"

definition demo_scanner :: MCPScanner where
  "demo_scanner =
     fst (snd (scan demo_console demo_now
       (fst (snd (load_config demo_console demo_config (MCPScanner_init ''cfg.json''))))))"

section \<open>Invariants of a ScanResult\<close>

lemma risk_level_add_cases:
  "risk_level (add_vulnerability r rname sev descr evid recom) =
     (case sev of
        CRITICAL \<Rightarrow> ''CRITICAL''
      | HIGH \<Rightarrow> if risk_level r \<noteq> ''CRITICAL'' then ''HIGH'' else risk_level r
      | MEDIUM \<Rightarrow> if risk_level r \<noteq> ''CRITICAL'' \<and> risk_level r \<noteq> ''HIGH''
                  then ''MEDIUM'' else risk_level r
      | LOW \<Rightarrow> if risk_level r = ''SAFE'' then ''LOW'' else risk_level r
      | INFO \<Rightarrow> risk_level r)"
  by (cases sev) (simp_all add: add_vulnerability_def Let_def)

lemma vulnerabilities_add:
  "vulnerabilities (add_vulnerability r rname sev descr evid recom) =
     vulnerabilities r @ [\<lparr>vuln_rule = rname, vuln_severity = sev, vuln_description = descr,
                          vuln_evidence = evid, vuln_recommendation = recom\<rparr>]"
  by (simp add: add_vulnerability_def Let_def)

lemma risk_score_add:
  "risk_score (add_vulnerability r rname sev descr evid recom) =
     risk_score r + get_severity_score sev"
  by (simp add: add_vulnerability_def Let_def)

lemma reachable_level_known:
  "ScanResult_reachable r \<Longrightarrow>
     risk_level r \<in> {''SAFE'', ''LOW'', ''MEDIUM'', ''HIGH'', ''CRITICAL''}"
proof (induction rule: ScanResult_reachable.induct)
  case (reach_init sname tname descr)
  show ?case by (simp add: ScanResult_init_def)
next
  case (reach_add r rname sev descr evid recom)
  then show ?case
    by (cases sev) (auto simp: risk_level_add_cases)
qed

lemma reachable_empty_safe:
  "ScanResult_reachable r \<Longrightarrow> vulnerabilities r = [] \<Longrightarrow> risk_level r = ''SAFE''"
  by (induction rule: ScanResult_reachable.induct)
     (simp_all add: ScanResult_init_def vulnerabilities_add)

lemma reachable_score_sum:
  "ScanResult_reachable r \<Longrightarrow>
     risk_score r = sum_list (map (\<lambda>v. get_severity_score (vuln_severity v)) (vulnerabilities r))"
  by (induction rule: ScanResult_reachable.induct)
     (simp_all add: ScanResult_init_def vulnerabilities_add risk_score_add)

section \<open>Risk level and risk score of a ScanResult\<close>

text \<open>
  C1 (as the specification states it, refuted): the level is raised to the severity of
  a new vulnerability exactly when that severity strictly outranks the current level
  under CRITICAL > HIGH > MEDIUM > LOW > INFO > SAFE. A fresh result is at SAFE, INFO
  outranks SAFE, and an INFO vulnerability leaves the level at SAFE: \<^verbatim>\<open>add_vulnerability\<close>
  has no branch for INFO.
\<close>

theorem C1_info_counterexample:
  "spec_rank (risk_level (ScanResult_init ''srv'' ''tool'' ''text''))
     < spec_rank (Severity_value INFO)
   \<and> risk_level (add_vulnerability (ScanResult_init ''srv'' ''tool'' ''text'')
        ''RULE'' INFO ''d'' [] ''r'') \<noteq> Severity_value INFO"
  by (simp add: spec_rank_def ScanResult_init_def risk_level_add_cases)

text \<open>
  C1 (amended): the level of a new ScanResult is SAFE; adding a vulnerability raises the
  level to its severity exactly when the severity is not INFO and strictly outranks the
  current level, and leaves the level as it is otherwise (an INFO vulnerability never
  changes the level); the level never decreases; a result with no vulnerability is at
  SAFE and \<^verbatim>\<open>is_safe\<close> holds of it.
\<close>

theorem C1_risk_level_upgrade_only:
  assumes "ScanResult_reachable r"
  shows "risk_level (ScanResult_init sname tname d0) = ''SAFE''
       \<and> risk_level (add_vulnerability r rname sev descr evid recom) =
           (if sev \<noteq> INFO \<and> spec_rank (risk_level r) < spec_rank (Severity_value sev)
            then Severity_value sev else risk_level r)
       \<and> spec_rank (risk_level r) \<le> spec_rank (risk_level (add_vulnerability r rname sev descr evid recom))
       \<and> (vulnerabilities r = [] \<longrightarrow> risk_level r = ''SAFE'' \<and> is_safe r)"
proof -
  have init: "risk_level (ScanResult_init sname tname d0) = ''SAFE''"
    by (simp add: ScanResult_init_def)
  from assms have known: "risk_level r \<in> {''SAFE'', ''LOW'', ''MEDIUM'', ''HIGH'', ''CRITICAL''}"
    by (rule reachable_level_known)
  have step: "risk_level (add_vulnerability r rname sev descr evid recom) =
           (if sev \<noteq> INFO \<and> spec_rank (risk_level r) < spec_rank (Severity_value sev)
            then Severity_value sev else risk_level r)"
    using known by (cases sev) (auto simp: risk_level_add_cases spec_rank_def)
  have mono: "spec_rank (risk_level r)
      \<le> spec_rank (risk_level (add_vulnerability r rname sev descr evid recom))"
    unfolding step by simp
  have empty: "vulnerabilities r = [] \<longrightarrow> risk_level r = ''SAFE'' \<and> is_safe r"
    using reachable_empty_safe[OF assms] by (simp add: is_safe_def)
  from init step mono empty show ?thesis by blast
qed

theorem C1_risk_level_upgrade_only_witness:
  "ScanResult_reachable
     (add_vulnerability (ScanResult_init ''srv'' ''tool'' ''text'') ''A'' HIGH ''d'' [] ''r'')
   \<and> risk_level (add_vulnerability
        (add_vulnerability (ScanResult_init ''srv'' ''tool'' ''text'') ''A'' HIGH ''d'' [] ''r'')
        ''B'' MEDIUM ''d'' [] ''r'') = ''HIGH''
   \<and> risk_level (add_vulnerability
        (add_vulnerability (ScanResult_init ''srv'' ''tool'' ''text'') ''A'' HIGH ''d'' [] ''r'')
        ''B'' CRITICAL ''d'' [] ''r'') = ''CRITICAL''"
proof -
  have h: "ScanResult_reachable
     (add_vulnerability (ScanResult_init ''srv'' ''tool'' ''text'') ''A'' HIGH ''d'' [] ''r'')"
    by (rule reach_add) (rule reach_init)
  have lvl: "risk_level
     (add_vulnerability (ScanResult_init ''srv'' ''tool'' ''text'') ''A'' HIGH ''d'' [] ''r'') = ''HIGH''"
    by (simp add: risk_level_add_cases ScanResult_init_def)
  from C1_risk_level_upgrade_only[OF h, of _ _ _ "''B''" MEDIUM "''d''" "[]" "''r''"]
       C1_risk_level_upgrade_only[OF h, of _ _ _ "''B''" CRITICAL "''d''" "[]" "''r''"] h
  show ?thesis by (simp add: lvl spec_rank_def)
qed

text \<open>
  C2: the risk score of a ScanResult is the sum of the weights (CRITICAL 100, HIGH 75,
  MEDIUM 50, LOW 25, INFO 10) of the vulnerabilities in its list, one summand for each
  entry: three CRITICAL findings score 300, two HIGH findings 150, one CRITICAL and one
  LOW finding 125.
\<close>

theorem C2_risk_score_is_sum:
  assumes "ScanResult_reachable r"
  shows "risk_score r
           = sum_list (map (\<lambda>v. get_severity_score (vuln_severity v)) (vulnerabilities r))
       \<and> map get_severity_score [CRITICAL, HIGH, MEDIUM, LOW, INFO] = [100, 75, 50, 25, 10]
       \<and> risk_score (add_vulnerability (add_vulnerability (add_vulnerability
            (ScanResult_init sname tname d0) n1 CRITICAL d1 e1 r1) n2 CRITICAL d2 e2 r2)
            n3 CRITICAL d3 e3 r3) = 300
       \<and> risk_score (add_vulnerability (add_vulnerability
            (ScanResult_init sname tname d0) n1 HIGH d1 e1 r1) n2 HIGH d2 e2 r2) = 150
       \<and> risk_score (add_vulnerability (add_vulnerability
            (ScanResult_init sname tname d0) n1 CRITICAL d1 e1 r1) n2 LOW d2 e2 r2) = 125"
  using reachable_score_sum[OF assms]
  by (simp add: risk_score_add ScanResult_init_def)

theorem C2_risk_score_is_sum_witness:
  "ScanResult_reachable
     (add_vulnerability (add_vulnerability (ScanResult_init ''srv'' ''tool'' ''text'')
        ''A'' MEDIUM ''d'' [] ''r'') ''B'' INFO ''d'' [] ''r'')
   \<and> risk_score
     (add_vulnerability (add_vulnerability (ScanResult_init ''srv'' ''tool'' ''text'')
        ''A'' MEDIUM ''d'' [] ''r'') ''B'' INFO ''d'' [] ''r'') = 60"
proof -
  have h: "ScanResult_reachable
     (add_vulnerability (add_vulnerability (ScanResult_init ''srv'' ''tool'' ''text'')
        ''A'' MEDIUM ''d'' [] ''r'') ''B'' INFO ''d'' [] ''r'')"
    by (intro reach_add reach_init)
  from C2_risk_score_is_sum[OF h] h show ?thesis
    by (simp add: vulnerabilities_add ScanResult_init_def)
qed

section \<open>Evidence of a rule\<close>

lemma finditer_from_spans:
  "(ms, me) \<in> set (finditer_from r pos ma s) \<Longrightarrow> pos \<le> ms \<and> ms \<le> me \<and> me \<le> pos + length s"
proof (induction r pos ma s rule: finditer_from.induct)
  case (1 r pos ma s)
  show ?case
  proof (cases "rmatch r s (top_k ma s)")
    case None
    note none = this
    show ?thesis
    proof (cases s)
      case Nil
      with none "1.prems" show ?thesis by (simp add: finditer_from.simps)
    next
      case (Cons c cs)
      with none "1.prems" have "(ms, me) \<in> set (finditer_from r (pos + 1) False cs)"
        by (simp add: finditer_from.simps)
      from "1.IH"(1)[OF none Cons this] Cons show ?thesis by simp
    qed
  next
    case (Some rest)
    from rmatch_top[OF Some] have le: "length rest \<le> length s"
      by (auto dest: suffix_length_le)
    from Some "1.prems" have "(ms, me) = (pos, pos + (length s - length rest))
        \<or> (ms, me) \<in> set (finditer_from r (pos + (length s - length rest)) (length rest = length s) rest)"
      by (simp add: finditer_from.simps)
    then show ?thesis
    proof
      assume "(ms, me) = (pos, pos + (length s - length rest))"
      then show ?thesis by auto
    next
      assume "(ms, me) \<in> set (finditer_from r (pos + (length s - length rest)) (length rest = length s) rest)"
      from "1.IH"(2)[OF Some this] le show ?thesis by auto
    qed
  qed
qed

lemma finditer_from_sorted: "sorted (map fst (finditer_from r pos ma s))"
proof (induction r pos ma s rule: finditer_from.induct)
  case (1 r pos ma s)
  show ?case
  proof (cases "rmatch r s (top_k ma s)")
    case None
    note none = this
    show ?thesis
    proof (cases s)
      case Nil
      with none show ?thesis by (simp add: finditer_from.simps)
    next
      case (Cons c cs)
      from "1.IH"(1)[OF none Cons] none Cons show ?thesis by (simp add: finditer_from.simps)
    qed
  next
    case (Some rest)
    have "\<forall>x \<in> set (finditer_from r (pos + (length s - length rest)) (length rest = length s) rest).
            pos \<le> fst x"
      using finditer_from_spans by fastforce
    with "1.IH"(2)[OF Some] Some show ?thesis by (simp add: finditer_from.simps)
  qed
qed

lemma finditer_spans:
  "(ms, me) \<in> set (finditer r text) \<Longrightarrow> ms \<le> me \<and> me \<le> length text"
  using finditer_from_spans[of ms me r 0 False "text"] by (simp add: finditer_def)

lemma finditer_sorted: "sorted (map fst (finditer r text))"
  by (simp add: finditer_def finditer_from_sorted)

lemma foldl_snoc_map: "foldl (\<lambda>acc x. acc @ [f x]) acc xs = acc @ map f xs"
  by (induction xs arbitrary: acc) simp_all

lemma foldl_snoc_concat:
  "foldl (\<lambda>acc p. foldl (\<lambda>acc x. acc @ [f x]) acc (g p)) acc ps
     = acc @ concat (map (\<lambda>p. map f (g p)) ps)"
  by (induction ps arbitrary: acc) (simp_all add: foldl_snoc_map)

lemma check_evidence:
  "check rule text =
     (concat (map (\<lambda>p. map (snippet text) (finditer p text)) (rule_patterns rule)) \<noteq> [],
      concat (map (\<lambda>p. map (snippet text) (finditer p text)) (rule_patterns rule)))"
proof -
  have "(\<lambda>evidence (mstart, mend).
              let start = mstart - 30;
                  end = min (length text) (mend + 30);
                  context = strip (slice text start end)
              in evidence @ [''...'' @ context @ ''...''])
        = (\<lambda>evidence m. evidence @ [snippet text m])"
    by (auto simp: fun_eq_iff snippet_def Let_def)
  then show ?thesis
    unfolding check_def by (simp add: foldl_snoc_concat Let_def del: foldl_append)
qed

lemma sublist_strip: "sublist (strip s) s"
proof -
  have "suffix (dropWhile isspace (rev (dropWhile isspace s))) (rev (dropWhile isspace s))"
    by (rule suffix_dropWhile)
  then have "sublist (rev (dropWhile isspace (rev (dropWhile isspace s)))) (rev (rev (dropWhile isspace s)))"
    unfolding sublist_rev by (rule suffix_imp_sublist)
  moreover have "sublist (dropWhile isspace s) s"
    by (rule suffix_imp_sublist) (rule suffix_dropWhile)
  ultimately show ?thesis unfolding strip_def by (auto intro: sublist_order.order.trans)
qed

lemma sublist_slice: "sublist (slice text i j) text"
  unfolding slice_def
  by (rule sublist_order.order.trans[OF sublist_take sublist_drop])

text \<open>
  C3 (as the specification states it, refuted): every evidence snippet is a substring of
  the input text, and the snippets come in the order of the match positions. On the
  text \<open>silently\<close> the rule USER_DECEPTION returns the snippet \<open>...silently...\<close>, which is
  not a substring of the text: \<^verbatim>\<open>check\<close> puts three dots before and after the trimmed
  window. On the second text the rule OBFUSCATION finds \<open>encoded\<close> at position 0 and
  \<open>base64\<close> at position 58, and returns the snippet of \<open>base64\<close> first: the outer loop
  runs over the patterns, and \<open>base64\<close> is the earlier pattern.
\<close>

theorem C3_evidence_counterexample:
  "rule_name (DETECTION_RULES ! 1) = ''USER_DECEPTION''
   \<and> check (DETECTION_RULES ! 1) ''silently'' = (True, [''...silently...''])
   \<and> \<not> sublist ''...silently...'' ''silently''
   \<and> rule_name (DETECTION_RULES ! 6) = ''OBFUSCATION''
   \<and> take 2 (rule_patterns (DETECTION_RULES ! 6)) = [Lit ''base64'', Lit ''encoded'']
   \<and> finditer (Lit ''base64'')
         ''encoded payload goes first and then, much later on, comes base64'' = [(58, 64)]
   \<and> finditer (Lit ''encoded'')
         ''encoded payload goes first and then, much later on, comes base64'' = [(0, 7)]
   \<and> check (DETECTION_RULES ! 6)
         ''encoded payload goes first and then, much later on, comes base64''
       = (True, [''...nd then, much later on, comes base64...'',
                 ''...encoded payload goes first and then,...''])"
proof -
  have a: "rule_name (DETECTION_RULES ! 1) = ''USER_DECEPTION''"
    by code_simp
  have b: "check (DETECTION_RULES ! 1) ''silently'' = (True, [''...silently...''])"
    by code_simp
  have c: "\<not> sublist ''...silently...'' ''silently''"
    by (auto dest: sublist_length_le)
  have d: "rule_name (DETECTION_RULES ! 6) = ''OBFUSCATION''"
    by code_simp
  have e: "take 2 (rule_patterns (DETECTION_RULES ! 6)) = [Lit ''base64'', Lit ''encoded'']"
    by (simp add: DETECTION_RULES_def)
  have e1: "finditer (Lit ''base64'')
         ''encoded payload goes first and then, much later on, comes base64'' = [(58, 64)]"
    by code_simp
  have e2: "finditer (Lit ''encoded'')
         ''encoded payload goes first and then, much later on, comes base64'' = [(0, 7)]"
    by code_simp
  have f: "check (DETECTION_RULES ! 6)
         ''encoded payload goes first and then, much later on, comes base64''
       = (True, [''...nd then, much later on, comes base64...'',
                 ''...encoded payload goes first and then,...''])"
    by code_simp
  from a b c d e e1 e2 f show ?thesis by blast
qed

text \<open>
  C3 (amended): for every rule and every input text, the evidence is the concatenation,
  over the patterns of the rule in their order, of the snippets of the matches of that
  pattern; within one pattern the matches come from left to right (their start
  positions ascend) and lie inside the text; each snippet is three dots, a substring of
  the input text (the trimmed window around the match), and three dots. The rule matched
  exactly when there is a snippet.
\<close>

theorem C3_evidence_shape:
  "snd (check rule text)
     = concat (map (\<lambda>p. map (snippet text) (finditer p text)) (rule_patterns rule))
   \<and> fst (check rule text) = (snd (check rule text) \<noteq> [])
   \<and> (\<forall>p \<in> set (rule_patterns rule).
         sorted (map fst (finditer p text))
         \<and> (\<forall>(ms, me) \<in> set (finditer p text). ms \<le> me \<and> me \<le> length text))
   \<and> (\<forall>e \<in> set (snd (check rule text)).
         \<exists>c. e = ''...'' @ c @ ''...'' \<and> sublist c text)"
proof -
  have shape: "\<exists>c. snippet text m = ''...'' @ c @ ''...'' \<and> sublist c text" for m
  proof -
    have "sublist (strip (slice text (fst m - 30) (min (length text) (snd m + 30)))) text"
      by (rule sublist_order.order.trans[OF sublist_strip sublist_slice])
    then show ?thesis unfolding snippet_def by blast
  qed
  have "\<forall>e \<in> set (snd (check rule text)). \<exists>c. e = ''...'' @ c @ ''...'' \<and> sublist c text"
    using shape by (auto simp: check_evidence)
  moreover have "\<forall>p \<in> set (rule_patterns rule).
         sorted (map fst (finditer p text))
         \<and> (\<forall>(ms, me) \<in> set (finditer p text). ms \<le> me \<and> me \<le> length text)"
    using finditer_sorted finditer_spans by blast
  ultimately show ?thesis by (simp add: check_evidence)
qed

theorem C3_evidence_shape_witness:
  "snd (check (DETECTION_RULES ! 6)
         ''encoded payload goes first and then, much later on, comes base64'')
     = [''...nd then, much later on, comes base64...'',
        ''...encoded payload goes first and then,...'']
   \<and> Lit ''base64'' \<in> set (rule_patterns (DETECTION_RULES ! 6))
   \<and> sorted (map fst (finditer (Lit ''base64'')
         ''encoded payload goes first and then, much later on, comes base64''))
   \<and> (\<exists>c. ''...nd then, much later on, comes base64...'' = ''...'' @ c @ ''...''
         \<and> sublist c ''encoded payload goes first and then, much later on, comes base64'')"
proof -
  let ?t = "''encoded payload goes first and then, much later on, comes base64''"
  let ?r = "DETECTION_RULES ! 6"
  have ev: "snd (check ?r ?t)
     = [''...nd then, much later on, comes base64...'',
        ''...encoded payload goes first and then,...'']"
    by code_simp
  have pat: "Lit ''base64'' \<in> set (rule_patterns ?r)"
    by code_simp
  note inst = C3_evidence_shape[of ?r ?t]
  from inst pat have "sorted (map fst (finditer (Lit ''base64'') ?t))" by blast
  moreover from inst ev
  have "\<exists>c. ''...nd then, much later on, comes base64...'' = ''...'' @ c @ ''...'' \<and> sublist c ?t"
    by simp
  ultimately show ?thesis using ev pat by blast
qed

section \<open>Scanning one tool\<close>

lemma catalogue_no_space_start:
  "p \<in> set (concat (map rule_patterns DETECTION_RULES)) \<Longrightarrow>
     rmatch p [] k = None \<and> rmatch p (CHR '' '' # s) k = None"
  by (auto simp: DETECTION_RULES_def seq_def alt_def dots_def email_local_def az_def AZ_def
        digits09_def lower_char_def upper_char_def)

lemma finditer_from_replicate_none:
  assumes "\<And>s k. rmatch p [] k = None \<and> rmatch p (c # s) k = None"
  shows "finditer_from p pos ma (replicate n c) = []"
proof (induction n arbitrary: pos ma)
  case 0
  show ?case using assms by (simp add: finditer_from.simps)
next
  case (Suc n)
  show ?case using assms Suc.IH by (simp add: finditer_from.simps)
qed

lemma no_match_spaces:
  assumes "rule \<in> set DETECTION_RULES"
  shows "\<not> fst (check rule (replicate n (CHR '' '')))"
proof -
  have "finditer p (replicate n (CHR '' '')) = []" if "p \<in> set (rule_patterns rule)" for p
  proof -
    from that assms have "p \<in> set (concat (map rule_patterns DETECTION_RULES))" by auto
    then have "\<And>s k. rmatch p [] k = None \<and> rmatch p (CHR '' '' # s) k = None"
      by (rule catalogue_no_space_start)
    then show ?thesis unfolding finditer_def by (rule finditer_from_replicate_none)
  qed
  then show ?thesis by (simp add: check_evidence)
qed

lemma scan_tool_run_rules:
  "scan_tool sname tname tool =
     (let descr = (case td_description tool of Some d \<Rightarrow> d | None \<Rightarrow> []);
          result = run_rules descr (ScanResult_init sname tname descr) DETECTION_RULES
      in if 1000 < length descr
         then add_vulnerability result ''UNUSUAL_COMPLEXITY'' LOW
                (''Tool description is unusually long ('' @ str_nat (length descr) @ '' characters)'')
                [''Description length: '' @ str_nat (length descr) @ '' chars (normal is < 1000)'']
                ''Review this tool. Overly complex descriptions may hide malicious behavior.''
         else result)"
  by (simp add: scan_tool_def run_rules_def check_description_length_def Let_def split_def)

lemma run_rules_Nil: "run_rules descr r [] = r"
  by (simp add: run_rules_def)

lemma run_rules_Cons:
  "run_rules descr r (rule # rules) =
     run_rules descr
       (if fst (check rule descr)
        then add_vulnerability r (rule_name rule) (rule_severity rule)
               (rule_description rule) (snd (check rule descr)) (rule_recommendation rule)
        else r) rules"
  by (simp add: run_rules_def)

lemma run_rules_vulnerabilities:
  "vulnerabilities (run_rules descr r rules) =
     vulnerabilities r @ map (\<lambda>rule. finding rule descr) (filter (\<lambda>rule. fst (check rule descr)) rules)"
  by (induction rules arbitrary: r)
     (simp_all add: run_rules_Nil run_rules_Cons vulnerabilities_add finding_def)

lemma run_rules_reachable:
  "ScanResult_reachable r \<Longrightarrow> ScanResult_reachable (run_rules descr r rules)"
  by (induction rules arbitrary: r)
     (simp_all add: run_rules_Nil run_rules_Cons reach_add)

lemma run_rules_no_match:
  "\<forall>rule \<in> set rules. \<not> fst (check rule descr) \<Longrightarrow> run_rules descr r rules = r"
  by (induction rules arbitrary: r) (simp_all add: run_rules_Nil run_rules_Cons)

lemma scan_tool_reachable: "ScanResult_reachable (scan_tool sname tname tool)"
  by (simp add: scan_tool_run_rules Let_def run_rules_reachable reach_init reach_add)

lemma scan_tool_vulnerabilities:
  "vulnerabilities (scan_tool sname tname tool) =
     (let descr = (case td_description tool of Some d \<Rightarrow> d | None \<Rightarrow> [])
      in map (\<lambda>rule. finding rule descr) (filter (\<lambda>rule. fst (check rule descr)) DETECTION_RULES)
         @ (if 1000 < length descr then [length_finding (length descr)] else []))"
  by (simp add: scan_tool_run_rules Let_def run_rules_vulnerabilities vulnerabilities_add
        ScanResult_init_def length_finding_def)

lemma check_no_patterns: "rule_patterns rule = [] \<Longrightarrow> check rule text = (False, [])"
  by (simp add: check_def)

lemma unusual_complexity_patterns:
  "rule \<in> set DETECTION_RULES \<Longrightarrow> rule_name rule = ''UNUSUAL_COMPLEXITY'' \<Longrightarrow>
     rule_patterns rule = []"
  by (auto simp: DETECTION_RULES_def)

lemma catalogue_findings_not_unusual:
  "v \<in> set (map (\<lambda>rule. finding rule descr) (filter (\<lambda>rule. fst (check rule descr)) DETECTION_RULES))
     \<Longrightarrow> vuln_rule v \<noteq> ''UNUSUAL_COMPLEXITY''"
proof
  assume v: "v \<in> set (map (\<lambda>rule. finding rule descr)
                 (filter (\<lambda>rule. fst (check rule descr)) DETECTION_RULES))"
    and name: "vuln_rule v = ''UNUSUAL_COMPLEXITY''"
  from v obtain rule where rule: "rule \<in> set DETECTION_RULES" "fst (check rule descr)"
      "v = finding rule descr" by auto
  from rule(3) name have "rule_name rule = ''UNUSUAL_COMPLEXITY''" by (simp add: finding_def)
  with rule(1) have "rule_patterns rule = []" by (rule unusual_complexity_patterns)
  then have "check rule descr = (False, [])" by (rule check_no_patterns)
  with rule(2) show False by simp
qed

lemma count_unusual:
  "length (filter (\<lambda>v. vuln_rule v = ''UNUSUAL_COMPLEXITY'') (vulnerabilities (scan_tool sname tname tool)))
     = (if 1000 < length (case td_description tool of Some d \<Rightarrow> d | None \<Rightarrow> []) then 1 else 0)"
proof -
  let ?d = "case td_description tool of Some d \<Rightarrow> d | None \<Rightarrow> []"
  let ?fs = "map (\<lambda>rule. finding rule ?d) (filter (\<lambda>rule. fst (check rule ?d)) DETECTION_RULES)"
  have "filter (\<lambda>v. vuln_rule v = ''UNUSUAL_COMPLEXITY'') ?fs = []"
    unfolding filter_empty_conv using catalogue_findings_not_unusual by blast
  then show ?thesis
    by (simp add: scan_tool_vulnerabilities Let_def length_finding_def)
qed

text \<open>
  C5: \<^verbatim>\<open>check_description_length\<close> returns the length of the text and whether it exceeds
  1000. The vulnerabilities of a scanned tool are the findings of the matching catalogue
  rules, in catalogue order, followed, exactly when the description is longer than 1000
  characters, by one LOW vulnerability named UNUSUAL_COMPLEXITY whose evidence is the
  single string "Description length: n chars (normal is < 1000)"; no other entry has that
  name. When no catalogue rule matches a description longer than 1000 characters, that
  entry is the only vulnerability and the risk level is LOW.
\<close>

theorem C5_length_heuristic:
  assumes "descr = (case td_description tool of Some d \<Rightarrow> d | None \<Rightarrow> [])"
  shows "check_description_length text = (1000 < length text, length text)
   \<and> vulnerabilities (scan_tool sname tname tool) =
       map (\<lambda>rule. finding rule descr) (filter (\<lambda>rule. fst (check rule descr)) DETECTION_RULES)
       @ (if 1000 < length descr
          then [\<lparr>vuln_rule = ''UNUSUAL_COMPLEXITY'', vuln_severity = LOW,
                  vuln_description =
                    ''Tool description is unusually long ('' @ str_nat (length descr) @ '' characters)'',
                  vuln_evidence =
                    [''Description length: '' @ str_nat (length descr) @ '' chars (normal is < 1000)''],
                  vuln_recommendation =
                    ''Review this tool. Overly complex descriptions may hide malicious behavior.''\<rparr>]
          else [])
   \<and> length (filter (\<lambda>v. vuln_rule v = ''UNUSUAL_COMPLEXITY'')
         (vulnerabilities (scan_tool sname tname tool))) = (if 1000 < length descr then 1 else 0)
   \<and> ((\<forall>rule \<in> set DETECTION_RULES. \<not> fst (check rule descr)) \<and> 1000 < length descr
        \<longrightarrow> vulnerabilities (scan_tool sname tname tool) = [length_finding (length descr)]
          \<and> map vuln_severity (vulnerabilities (scan_tool sname tname tool)) = [LOW]
          \<and> risk_level (scan_tool sname tname tool) = ''LOW'')"
proof -
  have a: "check_description_length text = (1000 < length text, length text)"
    by (simp add: check_description_length_def Let_def)
  have b: "vulnerabilities (scan_tool sname tname tool) =
       map (\<lambda>rule. finding rule descr) (filter (\<lambda>rule. fst (check rule descr)) DETECTION_RULES)
       @ (if 1000 < length descr then [length_finding (length descr)] else [])"
    using assms by (simp add: scan_tool_vulnerabilities Let_def)
  have c: "length (filter (\<lambda>v. vuln_rule v = ''UNUSUAL_COMPLEXITY'')
         (vulnerabilities (scan_tool sname tname tool))) = (if 1000 < length descr then 1 else 0)"
    using assms count_unusual[of sname tname tool] by simp
  have d: "vulnerabilities (scan_tool sname tname tool) = [length_finding (length descr)]
          \<and> map vuln_severity (vulnerabilities (scan_tool sname tname tool)) = [LOW]
          \<and> risk_level (scan_tool sname tname tool) = ''LOW''"
    if none: "\<forall>rule \<in> set DETECTION_RULES. \<not> fst (check rule descr)" and long: "1000 < length descr"
  proof -
    from none have "filter (\<lambda>rule. fst (check rule descr)) DETECTION_RULES = []"
      by (simp add: filter_empty_conv)
    with b long have v: "vulnerabilities (scan_tool sname tname tool) = [length_finding (length descr)]"
      by simp
    from none have "run_rules descr (ScanResult_init sname tname descr) DETECTION_RULES
        = ScanResult_init sname tname descr"
      by (rule run_rules_no_match)
    with long assms have "risk_level (scan_tool sname tname tool) = ''LOW''"
      by (simp add: scan_tool_run_rules Let_def risk_level_add_cases ScanResult_init_def)
    with v show ?thesis by (simp add: length_finding_def)
  qed
  from a b c d show ?thesis unfolding length_finding_def by blast
qed

theorem C5_length_heuristic_witness:
  "1000 < length (replicate 1200 (CHR '' ''))
   \<and> vulnerabilities (scan_tool ''srv'' ''tool''
        \<lparr>td_name = Some ''tool'', td_description = Some (replicate 1200 (CHR '' ''))\<rparr>)
     = [\<lparr>vuln_rule = ''UNUSUAL_COMPLEXITY'', vuln_severity = LOW,
         vuln_description = ''Tool description is unusually long (1200 characters)'',
         vuln_evidence = [''Description length: 1200 chars (normal is < 1000)''],
         vuln_recommendation =
           ''Review this tool. Overly complex descriptions may hide malicious behavior.''\<rparr>]
   \<and> risk_level (scan_tool ''srv'' ''tool''
        \<lparr>td_name = Some ''tool'', td_description = Some (replicate 1200 (CHR '' ''))\<rparr>) = ''LOW''"
proof -
  let ?d = "replicate 1200 (CHR '' '')"
  let ?tool = "\<lparr>td_name = Some ''tool'', td_description = Some ?d\<rparr>"
  have descr: "?d = (case td_description ?tool of Some d \<Rightarrow> d | None \<Rightarrow> [])" by simp
  have none: "\<forall>rule \<in> set DETECTION_RULES. \<not> fst (check rule ?d)"
    using no_match_spaces by blast
  have long: "1000 < length ?d" by simp
  have digits: "str_nat 1200 = ''1200''" by code_simp
  from C5_length_heuristic[OF descr, of "[]" "''srv''" "''tool''"] none long
  have "vulnerabilities (scan_tool ''srv'' ''tool'' ?tool) = [length_finding (length ?d)]
      \<and> risk_level (scan_tool ''srv'' ''tool'' ?tool) = ''LOW''"
    by blast
  then show ?thesis using long by (simp add: length_finding_def digits)
qed

text \<open>
  C10: the catalogue has an entry named UNUSUAL_COMPLEXITY; its pattern list is empty and
  its check returns (False, []) on every text. The loop over the rules never adds a
  vulnerability of that name; every vulnerability of that name in a scanned tool is the
  one of the length check, and there is at most one.
\<close>

theorem C10_unusual_complexity_from_length_only:
  assumes "descr = (case td_description tool of Some d \<Rightarrow> d | None \<Rightarrow> [])"
  shows "(\<exists>rule \<in> set DETECTION_RULES. rule_name rule = ''UNUSUAL_COMPLEXITY'')
   \<and> (\<forall>rule \<in> set DETECTION_RULES. rule_name rule = ''UNUSUAL_COMPLEXITY'' \<longrightarrow>
         rule_patterns rule = [] \<and> check rule text = (False, []))
   \<and> (\<forall>v \<in> set (vulnerabilities
                   (run_rules descr (ScanResult_init sname tname descr) DETECTION_RULES)).
         vuln_rule v \<noteq> ''UNUSUAL_COMPLEXITY'')
   \<and> (\<forall>v \<in> set (vulnerabilities (scan_tool sname tname tool)).
         vuln_rule v = ''UNUSUAL_COMPLEXITY'' \<longrightarrow>
           1000 < length descr \<and> v = length_finding (length descr))
   \<and> length (filter (\<lambda>v. vuln_rule v = ''UNUSUAL_COMPLEXITY'')
         (vulnerabilities (scan_tool sname tname tool))) \<le> 1"
proof -
  let ?fs = "map (\<lambda>rule. finding rule descr) (filter (\<lambda>rule. fst (check rule descr)) DETECTION_RULES)"
  have a: "\<exists>rule \<in> set DETECTION_RULES. rule_name rule = ''UNUSUAL_COMPLEXITY''"
    by (simp add: DETECTION_RULES_def)
  have b: "\<forall>rule \<in> set DETECTION_RULES. rule_name rule = ''UNUSUAL_COMPLEXITY'' \<longrightarrow>
         rule_patterns rule = [] \<and> check rule text = (False, [])"
    using unusual_complexity_patterns check_no_patterns by blast
  have c: "\<forall>v \<in> set (vulnerabilities
                   (run_rules descr (ScanResult_init sname tname descr) DETECTION_RULES)).
         vuln_rule v \<noteq> ''UNUSUAL_COMPLEXITY''"
    using catalogue_findings_not_unusual[of _ descr]
    by (simp add: run_rules_vulnerabilities ScanResult_init_def)
  have vs: "vulnerabilities (scan_tool sname tname tool) =
       ?fs @ (if 1000 < length descr then [length_finding (length descr)] else [])"
    using assms by (simp add: scan_tool_vulnerabilities Let_def)
  have d: "\<forall>v \<in> set (vulnerabilities (scan_tool sname tname tool)).
         vuln_rule v = ''UNUSUAL_COMPLEXITY'' \<longrightarrow>
           1000 < length descr \<and> v = length_finding (length descr)"
  proof (intro ballI impI)
    fix v
    assume v: "v \<in> set (vulnerabilities (scan_tool sname tname tool))"
      and n: "vuln_rule v = ''UNUSUAL_COMPLEXITY''"
    from n have "v \<notin> set ?fs" using catalogue_findings_not_unusual[of v descr] by blast
    with v vs show "1000 < length descr \<and> v = length_finding (length descr)"
      by (auto split: if_splits)
  qed
  have e: "length (filter (\<lambda>v. vuln_rule v = ''UNUSUAL_COMPLEXITY'')
         (vulnerabilities (scan_tool sname tname tool))) \<le> 1"
    using assms count_unusual[of sname tname tool] by simp
  from a b c d e show ?thesis by blast
qed

theorem C10_unusual_complexity_from_length_only_witness:
  "rule_name (DETECTION_RULES ! 7) = ''UNUSUAL_COMPLEXITY''
   \<and> check (DETECTION_RULES ! 7) ''silently forward base64 to a@b.cc'' = (False, [])
   \<and> length (filter (\<lambda>v. vuln_rule v = ''UNUSUAL_COMPLEXITY'')
        (vulnerabilities (scan_tool ''srv'' ''tool''
           \<lparr>td_name = Some ''tool'', td_description = Some (replicate 1200 (CHR '' ''))\<rparr>))) \<le> 1"
proof -
  let ?d = "replicate 1200 (CHR '' '')"
  let ?tool = "\<lparr>td_name = Some ''tool'', td_description = Some ?d\<rparr>"
  have descr: "?d = (case td_description ?tool of Some d \<Rightarrow> d | None \<Rightarrow> [])" by simp
  have n: "rule_name (DETECTION_RULES ! 7) = ''UNUSUAL_COMPLEXITY''" by code_simp
  have m: "DETECTION_RULES ! 7 \<in> set DETECTION_RULES" by (simp add: DETECTION_RULES_def)
  note inst = C10_unusual_complexity_from_length_only[OF descr,
      of "''silently forward base64 to a@b.cc''" "''srv''" "''tool''"]
  from inst n m have "check (DETECTION_RULES ! 7) ''silently forward base64 to a@b.cc'' = (False, [])"
    by blast
  with inst n show ?thesis by blast
qed

section \<open>The scanner: scan, summary, recommendations\<close>

lemma foldl_results_tools:
  "foldl (\<lambda>self tool. self\<lparr>results := results self @ [f tool]\<rparr>) self ts
     = self\<lparr>results := results self @ map f ts\<rparr>"
  by (induction ts arbitrary: self) simp_all

lemma scan_loop_outcome:
  "scan_loop renders self es =
     (if \<forall>entry \<in> set es. renders (progress_markup (fst entry)) then None else Some MarkupError,
      self\<lparr>results := results self
         @ concat (map scan_server (takeWhile (\<lambda>entry. renders (progress_markup (fst entry))) es))\<rparr>)"
proof (induction renders self es rule: scan_loop.induct)
  case (1 renders self)
  show ?case by simp
next
  case (2 renders self sname server rest)
  show ?case
  proof (cases "renders (progress_markup sname)")
    case False
    then show ?thesis by simp
  next
    case True
    with "2.IH" show ?thesis
      by (simp add: Let_def foldl_results_tools scan_server_def)
  qed
qed

lemma scan_empty:
  "servers self = [] \<Longrightarrow>
     scan renders now self
       = (Inr False, self, [''[yellow]No servers found in configuration[/yellow]''])"
  by (simp add: scan_def)

lemma scan_nonempty:
  "servers self \<noteq> [] \<Longrightarrow>
     fst (scan renders now self)
       = (if \<forall>entry \<in> set (servers self). renders (progress_markup (fst entry))
          then Inr True else Inl MarkupError)
   \<and> fst (snd (scan renders now self))
       = self\<lparr>scan_time := Some now,
              results := results self @ concat (map scan_server
                (takeWhile (\<lambda>entry. renders (progress_markup (fst entry))) (servers self)))\<rparr>"
  by (simp add: scan_def Let_def scan_loop_outcome)

lemma scan_server_reachable: "r \<in> set (scan_server entry) \<Longrightarrow> ScanResult_reachable r"
  by (auto simp: scan_server_def scan_tool_reachable)

lemma load_config_results: "results (fst (snd (load_config renders cfg s))) = results s"
  by (cases cfg) (simp_all add: load_config_def Let_def)

lemma scanner_results_reachable:
  "MCPScanner_reachable renders s \<Longrightarrow> r \<in> set (results s) \<Longrightarrow> ScanResult_reachable r"
proof (induction arbitrary: r rule: MCPScanner_reachable.induct)
  case (reach_new path)
  then show ?case by (simp add: MCPScanner_init_def)
next
  case (reach_load s cfg)
  then show ?case by (simp add: load_config_results)
next
  case (reach_scan s now)
  show ?case
  proof (cases "servers s = []")
    case True
    with reach_scan show ?thesis by (simp add: scan_empty)
  next
    case False
    from scan_nonempty[OF False, of renders now] reach_scan.prems
    have "r \<in> set (results s) \<or> (\<exists>entry \<in> set (servers s). r \<in> set (scan_server entry))"
      by (auto dest: set_takeWhileD)
    then show ?thesis using reach_scan.IH scan_server_reachable by blast
  qed
qed

lemma count_is_filter: "sum_list [1. r \<leftarrow> rs, P r] = length (filter P rs)"
  by (induction rs) simp_all

lemma counts_partition:
  "\<forall>r \<in> set rs. risk_level r \<in> {''SAFE'', ''LOW'', ''MEDIUM'', ''HIGH'', ''CRITICAL''} \<Longrightarrow>
     length (filter (\<lambda>r. risk_level r = ''CRITICAL'') rs)
   + length (filter (\<lambda>r. risk_level r = ''HIGH'') rs)
   + length (filter (\<lambda>r. risk_level r = ''MEDIUM'') rs)
   + length (filter (\<lambda>r. risk_level r = ''LOW'') rs)
   + length (filter (\<lambda>r. risk_level r = ''SAFE'') rs) = length rs"
  by (induction rs) auto

lemma recommendations_sets:
  "foldl (\<lambda>(critical_servers, high_servers) result.
         if risk_level result = ''CRITICAL''
         then (insert (server_name result) critical_servers, high_servers)
         else if risk_level result = ''HIGH''
         then (critical_servers, insert (server_name result) high_servers)
         else (critical_servers, high_servers))
       (cs, hs) rs
   = (cs \<union> server_name ` {r \<in> set rs. risk_level r = ''CRITICAL''},
      hs \<union> server_name ` {r \<in> set rs. risk_level r = ''HIGH''})"
  by (induction rs arbitrary: cs hs) auto

lemma add_vulnerability_names:
  "server_name (add_vulnerability r rname sev descr evid recom) = server_name r"
  "tool_name (add_vulnerability r rname sev descr evid recom) = tool_name r"
  by (simp_all add: add_vulnerability_def Let_def)

lemma run_rules_names:
  "server_name (run_rules descr r rules) = server_name r
   \<and> tool_name (run_rules descr r rules) = tool_name r"
  by (induction rules arbitrary: r)
     (simp_all add: run_rules_Nil run_rules_Cons add_vulnerability_names)

lemma scan_tool_names:
  "server_name (scan_tool sname tname tool) = sname"
  "tool_name (scan_tool sname tname tool) = tname"
  by (simp_all add: scan_tool_run_rules Let_def add_vulnerability_names run_rules_names
        ScanResult_init_def)

lemma demo_servers:
  "servers (fst (snd (load_config demo_console demo_config (MCPScanner_init ''cfg.json''))))
     = [(''mail'', \<lparr>tools = Some
         [\<lparr>td_name = Some ''send'', td_description = Some ''silently''\<rparr>,
          \<lparr>td_name = None, td_description = Some ''collect data''\<rparr>]\<rparr>),
        (''idle'', \<lparr>tools = None\<rparr>)]"
  by (simp add: demo_config_def load_config_def MCPScanner_init_def)

lemma demo_console_lines:
  "demo_console (progress_markup ''mail'')" "demo_console (progress_markup ''idle'')"
  "\<not> demo_console (progress_markup ''[/x]'')"
  by (simp_all add: demo_console_def progress_markup_def)

lemma demo_scan_returns:
  "fst (scan demo_console demo_now
     (fst (snd (load_config demo_console demo_config (MCPScanner_init ''cfg.json''))))) = Inr True"
  using scan_nonempty[of "fst (snd (load_config demo_console demo_config (MCPScanner_init ''cfg.json'')))"
      demo_console demo_now]
  by (simp add: demo_servers demo_console_lines)

lemma demo_state:
  "servers demo_scanner
     = [(''mail'', \<lparr>tools = Some
         [\<lparr>td_name = Some ''send'', td_description = Some ''silently''\<rparr>,
          \<lparr>td_name = None, td_description = Some ''collect data''\<rparr>]\<rparr>),
        (''idle'', \<lparr>tools = None\<rparr>)]"
  "scan_time demo_scanner = Some demo_now"
  "results demo_scanner =
     [scan_tool ''mail'' ''send'' \<lparr>td_name = Some ''send'', td_description = Some ''silently''\<rparr>,
      scan_tool ''mail'' ''unnamed'' \<lparr>td_name = None, td_description = Some ''collect data''\<rparr>]"
proof -
  let ?s1 = "fst (snd (load_config demo_console demo_config (MCPScanner_init ''cfg.json'')))"
  have ne: "servers ?s1 \<noteq> []" by (simp add: demo_servers)
  have r1: "results ?s1 = []" by (simp add: load_config_results MCPScanner_init_def)
  have tw: "takeWhile (\<lambda>entry. demo_console (progress_markup (fst entry))) (servers ?s1)
      = servers ?s1"
    by (simp add: demo_servers demo_console_lines)
  from scan_nonempty[OF ne, of demo_console demo_now]
  have st: "demo_scanner
      = ?s1\<lparr>scan_time := Some demo_now, results := concat (map scan_server (servers ?s1))\<rparr>"
    unfolding tw by (simp add: demo_scanner_def r1)
  show "servers demo_scanner
     = [(''mail'', \<lparr>tools = Some
         [\<lparr>td_name = Some ''send'', td_description = Some ''silently''\<rparr>,
          \<lparr>td_name = None, td_description = Some ''collect data''\<rparr>]\<rparr>),
        (''idle'', \<lparr>tools = None\<rparr>)]"
    by (simp add: st demo_servers)
  show "scan_time demo_scanner = Some demo_now"
    by (simp add: st)
  show "results demo_scanner =
     [scan_tool ''mail'' ''send'' \<lparr>td_name = Some ''send'', td_description = Some ''silently''\<rparr>,
      scan_tool ''mail'' ''unnamed'' \<lparr>td_name = None, td_description = Some ''collect data''\<rparr>]"
    by (simp add: st demo_servers scan_server_def get_tools_def)
qed

lemmas demo_results = demo_state(3)

lemma demo_level_send:
  "risk_level (scan_tool ''mail'' ''send''
     \<lparr>td_name = Some ''send'', td_description = Some ''silently''\<rparr>) = ''CRITICAL''"
  by code_simp

lemma demo_level_unnamed:
  "risk_level (scan_tool ''mail'' ''unnamed''
     \<lparr>td_name = None, td_description = Some ''collect data''\<rparr>) = ''HIGH''"
  by code_simp

lemma demo_reachable: "MCPScanner_reachable demo_console demo_scanner"
  unfolding demo_scanner_def by (intro reach_scan reach_load reach_new)

lemma print_recommendations_sets:
  "print_recommendations self =
     (server_name ` {r \<in> set (results self). risk_level r = ''CRITICAL''},
      server_name ` {r \<in> set (results self). risk_level r = ''HIGH''})"
  unfolding print_recommendations_def recommendations_sets by simp

lemma demo_recommendations: "print_recommendations demo_scanner = ({''mail''}, {''mail''})"
  by (simp add: print_recommendations_def demo_results demo_level_send demo_level_unnamed
        scan_tool_names)

text \<open>
  C4 (as the specification states it, refuted): the CRITICAL set and the HIGH set of
  server names are disjoint. In the example the server \<open>mail\<close> has one tool at CRITICAL and
  one at HIGH, and \<^verbatim>\<open>print_recommendations\<close> puts it in both sets: the \<^verbatim>\<open>elif\<close> is taken
  for each result, not for each server.
\<close>

theorem C4_sets_counterexample:
  "map server_name (results demo_scanner) = [''mail'', ''mail'']
   \<and> map tool_name (results demo_scanner) = [''send'', ''unnamed'']
   \<and> map risk_level (results demo_scanner) = [''CRITICAL'', ''HIGH'']
   \<and> print_recommendations demo_scanner = ({''mail''}, {''mail''})
   \<and> fst (print_recommendations demo_scanner) \<inter> snd (print_recommendations demo_scanner) \<noteq> {}"
  by (simp add: demo_recommendations)
     (simp add: demo_results demo_level_send demo_level_unnamed scan_tool_names)

text \<open>
  C4 (amended): the CRITICAL set holds the names of the servers with at least one tool at
  risk level CRITICAL, the HIGH set the names of the servers with at least one tool at
  risk level exactly HIGH; the two sets are disjoint exactly when no server has both a
  CRITICAL tool and a HIGH tool.
\<close>

theorem C4_recommendation_sets:
  "fst (print_recommendations self)
     = server_name ` {r \<in> set (results self). risk_level r = ''CRITICAL''}
   \<and> snd (print_recommendations self)
     = server_name ` {r \<in> set (results self). risk_level r = ''HIGH''}
   \<and> (fst (print_recommendations self) \<inter> snd (print_recommendations self) = {}
        \<longleftrightarrow> \<not> (\<exists>r1 \<in> set (results self). \<exists>r2 \<in> set (results self).
                 server_name r1 = server_name r2
                 \<and> risk_level r1 = ''CRITICAL'' \<and> risk_level r2 = ''HIGH''))"
  unfolding print_recommendations_sets by auto

theorem C4_recommendation_sets_witness:
  "fst (print_recommendations demo_scanner) = {''mail''}
   \<and> snd (print_recommendations demo_scanner) = {''mail''}"
proof -
  let ?a = "scan_tool ''mail'' ''send'' \<lparr>td_name = Some ''send'', td_description = Some ''silently''\<rparr>"
  let ?b = "scan_tool ''mail'' ''unnamed'' \<lparr>td_name = None, td_description = Some ''collect data''\<rparr>"
  have c: "{r \<in> set (results demo_scanner). risk_level r = ''CRITICAL''} = {?a}"
    and h: "{r \<in> set (results demo_scanner). risk_level r = ''HIGH''} = {?b}"
    using demo_level_send demo_level_unnamed by (auto simp: demo_results)
  from C4_recommendation_sets[of demo_scanner] show ?thesis
    unfolding c h by (simp add: scan_tool_names)
qed

lemma summary_counts:
  "critical (get_summary s) = length (filter (\<lambda>r. risk_level r = ''CRITICAL'') (results s))"
  "high (get_summary s) = length (filter (\<lambda>r. risk_level r = ''HIGH'') (results s))"
  "medium (get_summary s) = length (filter (\<lambda>r. risk_level r = ''MEDIUM'') (results s))"
  "low (get_summary s) = length (filter (\<lambda>r. risk_level r = ''LOW'') (results s))"
  "safe (get_summary s) = length (filter (\<lambda>r. risk_level r = ''SAFE'') (results s))"
  "total_tools (get_summary s) = length (results s)"
  "total_servers (get_summary s) = length (servers s)"
  by (simp_all add: get_summary_def count_is_filter)

text \<open>
  C6: for every scanner, each of the critical, high, medium, low and safe counts of the
  summary is the number of results at that risk level; the five counts add up to the
  total tool count, which is the number of ScanResults; the server count is the number
  of entries of the server mapping; every result has one of the levels SAFE, LOW, MEDIUM,
  HIGH, CRITICAL, and none has INFO. After a scan of a newly loaded configuration that
  returns success, the tool count is the sum of the lengths of the tool lists, so a
  server without tools counts as a server and adds no tool.
\<close>

theorem C6_summary_partition:
  assumes "MCPScanner_reachable renders s"
  shows "critical (get_summary s) = length (filter (\<lambda>r. risk_level r = ''CRITICAL'') (results s))
   \<and> high (get_summary s) = length (filter (\<lambda>r. risk_level r = ''HIGH'') (results s))
   \<and> medium (get_summary s) = length (filter (\<lambda>r. risk_level r = ''MEDIUM'') (results s))
   \<and> low (get_summary s) = length (filter (\<lambda>r. risk_level r = ''LOW'') (results s))
   \<and> safe (get_summary s) = length (filter (\<lambda>r. risk_level r = ''SAFE'') (results s))
   \<and> critical (get_summary s) + high (get_summary s) + medium (get_summary s)
         + low (get_summary s) + safe (get_summary s) = total_tools (get_summary s)
   \<and> total_tools (get_summary s) = length (results s)
   \<and> total_servers (get_summary s) = length (servers s)
   \<and> (\<forall>r \<in> set (results s).
         risk_level r \<in> {''SAFE'', ''LOW'', ''MEDIUM'', ''HIGH'', ''CRITICAL''})
   \<and> (\<forall>r \<in> set (results s). risk_level r \<noteq> ''INFO'')
   \<and> (svs \<noteq> []
        \<and> fst (scan renders now
              (fst (snd (load_config renders (Parsed (Some svs)) (MCPScanner_init path)))))
            = Inr True \<longrightarrow>
        total_tools (get_summary (fst (snd (scan renders now
            (fst (snd (load_config renders (Parsed (Some svs)) (MCPScanner_init path))))))))
          = sum_list (map (\<lambda>entry. length (get_tools (snd entry))) svs)
      \<and> total_servers (get_summary (fst (snd (scan renders now
            (fst (snd (load_config renders (Parsed (Some svs)) (MCPScanner_init path))))))))
          = length svs)"
proof -
  have known: "\<forall>r \<in> set (results s).
      risk_level r \<in> {''SAFE'', ''LOW'', ''MEDIUM'', ''HIGH'', ''CRITICAL''}"
    using scanner_results_reachable[OF assms] reachable_level_known by blast
  have part: "critical (get_summary s) + high (get_summary s) + medium (get_summary s)
           + low (get_summary s) + safe (get_summary s) = total_tools (get_summary s)"
    unfolding summary_counts by (rule counts_partition[OF known])
  have info: "\<forall>r \<in> set (results s). risk_level r \<noteq> ''INFO''"
    using known by auto
  have fresh: "total_tools (get_summary (fst (snd (scan renders now
            (fst (snd (load_config renders (Parsed (Some svs)) (MCPScanner_init path))))))))
          = sum_list (map (\<lambda>entry. length (get_tools (snd entry))) svs)
      \<and> total_servers (get_summary (fst (snd (scan renders now
            (fst (snd (load_config renders (Parsed (Some svs)) (MCPScanner_init path))))))))
          = length svs"
    if ne: "svs \<noteq> []"
      and ok: "fst (scan renders now
              (fst (snd (load_config renders (Parsed (Some svs)) (MCPScanner_init path)))))
            = Inr True"
  proof -
    let ?s1 = "fst (snd (load_config renders (Parsed (Some svs)) (MCPScanner_init path)))"
    have s1: "servers ?s1 = svs" "results ?s1 = []"
      by (simp_all add: load_config_def MCPScanner_init_def)
    with ne have ne1: "servers ?s1 \<noteq> []" by simp
    note sc = scan_nonempty[OF ne1, of renders now]
    from sc ok s1 have all: "\<forall>entry \<in> set svs. renders (progress_markup (fst entry))"
      by (auto split: if_splits)
    then have tw: "takeWhile (\<lambda>entry. renders (progress_markup (fst entry))) svs = svs"
      by (simp add: takeWhile_eq_all_conv)
    have "length (concat (map scan_server svs))
        = sum_list (map (\<lambda>entry. length (get_tools (snd entry))) svs)"
      by (simp add: length_concat scan_server_def comp_def)
    then show ?thesis
      using sc s1 tw by (simp add: summary_counts)
  qed
  from part known info fresh show ?thesis by (simp add: summary_counts)
qed

theorem C6_summary_partition_witness:
  "MCPScanner_reachable demo_console demo_scanner
   \<and> map risk_level (results demo_scanner) = [''CRITICAL'', ''HIGH'']
   \<and> critical (get_summary demo_scanner) = 1
   \<and> high (get_summary demo_scanner) = 1
   \<and> medium (get_summary demo_scanner) = 0
   \<and> low (get_summary demo_scanner) = 0
   \<and> safe (get_summary demo_scanner) = 0
   \<and> total_tools (get_summary demo_scanner) = 2
   \<and> length (servers demo_scanner) = 2
   \<and> total_servers (get_summary demo_scanner) = 2"
proof -
  have lv: "map risk_level (results demo_scanner) = [''CRITICAL'', ''HIGH'']"
    by (simp add: demo_results demo_level_send demo_level_unnamed)
  have sv: "length (servers demo_scanner) = 2"
    by (simp add: demo_state)
  from C6_summary_partition[OF demo_reachable] lv sv demo_reachable
  show ?thesis by (simp add: demo_results demo_level_send demo_level_unnamed)
qed

text \<open>
  C8, what the code does: with no server, \<^verbatim>\<open>scan\<close> prints that no servers were found,
  returns False and leaves the scanner as it was, and for a new scanner whose
  configuration has no server (the key absent or the mapping empty) the results stay
  empty. With at least one server it returns True when the console renders the progress
  line of every server, and raises when it does not render the progress line of some
  server: the name of the server is put into the markup of the progress display as it
  is. So \<^verbatim>\<open>scan\<close> does not return success for every configuration with a server, as the
  specification has it.
\<close>

theorem C8_scan_outcome:
  "(servers self = [] \<longrightarrow>
      scan renders now self
        = (Inr False, self, [''[yellow]No servers found in configuration[/yellow]'']))
   \<and> (servers self \<noteq> []
        \<and> (\<forall>entry \<in> set (servers self). renders (progress_markup (fst entry)))
      \<longrightarrow> fst (scan renders now self) = Inr True)
   \<and> (servers self \<noteq> []
        \<and> (\<exists>entry \<in> set (servers self). \<not> renders (progress_markup (fst entry)))
      \<longrightarrow> fst (scan renders now self) = Inl MarkupError)
   \<and> (cfg = Parsed None \<or> cfg = Parsed (Some []) \<longrightarrow>
        fst (load_config renders cfg (MCPScanner_init path)) = Inr True
      \<and> servers (fst (snd (load_config renders cfg (MCPScanner_init path)))) = []
      \<and> fst (scan renders now (fst (snd (load_config renders cfg (MCPScanner_init path)))))
          = Inr False
      \<and> results (fst (snd (scan renders now
          (fst (snd (load_config renders cfg (MCPScanner_init path))))))) = [])"
proof -
  have a: "servers self = [] \<longrightarrow>
      scan renders now self
        = (Inr False, self, [''[yellow]No servers found in configuration[/yellow]''])"
    by (simp add: scan_empty)
  have b: "fst (scan renders now self) = Inr True"
    if "servers self \<noteq> []"
      and "\<forall>entry \<in> set (servers self). renders (progress_markup (fst entry))"
    using scan_nonempty[OF that(1), of renders now] that(2) by simp
  have c: "fst (scan renders now self) = Inl MarkupError"
    if "servers self \<noteq> []"
      and "\<exists>entry \<in> set (servers self). \<not> renders (progress_markup (fst entry))"
    using scan_nonempty[OF that(1), of renders now] that(2) by auto
  have d: "fst (load_config renders cfg (MCPScanner_init path)) = Inr True
      \<and> servers (fst (snd (load_config renders cfg (MCPScanner_init path)))) = []
      \<and> fst (scan renders now (fst (snd (load_config renders cfg (MCPScanner_init path)))))
          = Inr False
      \<and> results (fst (snd (scan renders now
          (fst (snd (load_config renders cfg (MCPScanner_init path))))))) = []"
    if "cfg = Parsed None \<or> cfg = Parsed (Some [])"
    using that by (auto simp: load_config_def MCPScanner_init_def scan_def)
  from a b c d show ?thesis by blast
qed

theorem C8_scan_outcome_witness:
  "scan demo_console demo_now (MCPScanner_init ''cfg.json'')
     = (Inr False, MCPScanner_init ''cfg.json'',
        [''[yellow]No servers found in configuration[/yellow]''])
   \<and> results (fst (snd (scan demo_console demo_now
        (fst (snd (load_config demo_console (Parsed (Some [])) (MCPScanner_init ''cfg.json'')))))))
       = []
   \<and> fst (scan demo_console demo_now
        (fst (snd (load_config demo_console demo_config (MCPScanner_init ''cfg.json'')))))
       = Inr True
   \<and> fst (scan demo_console demo_now
        (fst (snd (load_config demo_console
           (Parsed (Some [(''[/x]'', \<lparr>tools = Some []\<rparr>)])) (MCPScanner_init ''cfg.json'')))))
       = Inl MarkupError"
proof -
  let ?new = "MCPScanner_init ''cfg.json''"
  let ?demo = "fst (snd (load_config demo_console demo_config ?new))"
  let ?bad = "fst (snd (load_config demo_console
           (Parsed (Some [(''[/x]'', \<lparr>tools = Some []\<rparr>)])) ?new))"
  have e: "servers ?new = []" by (simp add: MCPScanner_init_def)
  have n: "servers ?demo \<noteq> []"
    "\<forall>entry \<in> set (servers ?demo). demo_console (progress_markup (fst entry))"
    by (simp_all add: demo_servers demo_console_lines)
  have x: "servers ?bad \<noteq> []"
    "\<exists>entry \<in> set (servers ?bad). \<not> demo_console (progress_markup (fst entry))"
    by (simp_all add: load_config_def demo_console_lines)
  from C8_scan_outcome[of ?new demo_console demo_now "Parsed (Some [])" "''cfg.json''"]
       C8_scan_outcome[of ?demo demo_console demo_now "Parsed None" "''cfg.json''"]
       C8_scan_outcome[of ?bad demo_console demo_now "Parsed None" "''cfg.json''"]
       e n x
  show ?thesis by blast
qed

section \<open>Export and reimport\<close>

lemma digit_val_digit_char: "n < 10 \<Longrightarrow> digit_val (digit_char n) = n"
proof -
  assume "n < 10"
  then have "n \<in> {0, 1, 2, 3, 4, 5, 6, 7, 8, 9}" by auto
  then show ?thesis by (auto simp: digit_val_def digit_char_def)
qed

lemma int_of_digits_snoc: "int_of_digits (s @ [c]) = 10 * int_of_digits s + digit_val c"
  by (simp add: int_of_digits_def)

lemma int_of_digits_str_nat: "int_of_digits (str_nat n) = n"
proof (induction n rule: str_nat.induct)
  case (1 n)
  show ?case
  proof (cases "n < 10")
    case True
    then show ?thesis
      by (simp add: str_nat.simps[of n] int_of_digits_def digit_val_digit_char)
  next
    case False
    with "1.IH" show ?thesis
      by (simp add: str_nat.simps[of n] int_of_digits_snoc digit_val_digit_char)
  qed
qed

lemma int_of_digits_zeros: "int_of_digits (replicate k (CHR ''0'') @ s) = int_of_digits s"
proof -
  have "foldl (\<lambda>a c. 10 * a + digit_val c) 0 (replicate k (CHR ''0'')) = 0"
    by (induction k) (simp_all add: digit_val_def)
  then show ?thesis by (simp add: int_of_digits_def)
qed

lemma int_of_digits_zpad: "int_of_digits (zpad k n) = n"
  by (simp add: zpad_def int_of_digits_zeros int_of_digits_str_nat)

lemma length_str_nat: "n < 10 ^ k \<Longrightarrow> 0 < k \<Longrightarrow> length (str_nat n) \<le> k"
proof (induction n arbitrary: k rule: str_nat.induct)
  case (1 n)
  show ?case
  proof (cases "n < 10")
    case True
    with "1.prems" show ?thesis by (simp add: str_nat.simps[of n])
  next
    case False
    from "1.prems" obtain j where k: "k = Suc j" by (cases k) auto
    from False "1.prems" k have j: "0 < j" by (cases j) auto
    from "1.prems" k have "n div 10 < 10 ^ j"
      by (simp add: less_mult_imp_div_less mult.commute)
    from "1.IH"[OF False this j] False k show ?thesis by (simp add: str_nat.simps[of n])
  qed
qed

lemma length_zpad: "n < 10 ^ k \<Longrightarrow> 0 < k \<Longrightarrow> length (zpad k n) = k"
  using length_str_nat[of n k] by (simp add: zpad_def)

lemma fields_of_layout:
  assumes "length a = 4" "length b = 2" "length c = 2" "length d = 2" "length e = 2" "length f = 2"
  shows "take 4 (a @ x1 # b @ x2 # c @ x3 # d @ x4 # e @ x5 # f @ r) = a"
    and "take 2 (drop 5 (a @ x1 # b @ x2 # c @ x3 # d @ x4 # e @ x5 # f @ r)) = b"
    and "take 2 (drop 8 (a @ x1 # b @ x2 # c @ x3 # d @ x4 # e @ x5 # f @ r)) = c"
    and "take 2 (drop 11 (a @ x1 # b @ x2 # c @ x3 # d @ x4 # e @ x5 # f @ r)) = d"
    and "take 2 (drop 14 (a @ x1 # b @ x2 # c @ x3 # d @ x4 # e @ x5 # f @ r)) = e"
    and "take 2 (drop 17 (a @ x1 # b @ x2 # c @ x3 # d @ x4 # e @ x5 # f @ r)) = f"
    and "drop 19 (a @ x1 # b @ x2 # c @ x3 # d @ x4 # e @ x5 # f @ r) = r"
    and "length (a @ x1 # b @ x2 # c @ x3 # d @ x4 # e @ x5 # f @ r) = 19 + length r"
  using assms by (simp_all add: drop_Cons' take_Cons')

lemma fromisoformat_isoformat_sep:
  assumes "datetime_ok t"
  shows "fromisoformat (isoformat_sep sep t) = t"
proof -
  let ?a = "zpad 4 (year t)" and ?b = "zpad 2 (month t)" and ?c = "zpad 2 (day t)"
  let ?d = "zpad 2 (hour t)" and ?e = "zpad 2 (minute t)" and ?f = "zpad 2 (second t)"
  let ?r = "if microsecond t = 0 then [] else CHR ''.'' # zpad 6 (microsecond t)"
  let ?s = "?a @ CHR ''-'' # ?b @ CHR ''-'' # ?c @ sep # ?d @ CHR '':'' # ?e @ CHR '':'' # ?f @ ?r"
  have s: "isoformat_sep sep t = ?s"
    by (simp add: isoformat_sep_def)
  from assms have len: "length ?a = 4" "length ?b = 2" "length ?c = 2" "length ?d = 2"
      "length ?e = 2" "length ?f = 2"
    by (simp_all add: datetime_ok_def length_zpad)
  note f = fields_of_layout[OF len, of "CHR ''-''" "CHR ''-''" sep "CHR '':''" "CHR '':''" ?r]
  have micro: "(if length ?s \<le> 19 then 0 else int_of_digits (take 6 (drop 20 ?s))) = microsecond t"
  proof (cases "microsecond t = 0")
    case True
    with f(8) show ?thesis by simp
  next
    case False
    from assms have l6: "length (zpad 6 (microsecond t)) = 6"
      by (simp add: datetime_ok_def length_zpad)
    have "drop 20 ?s = drop 1 (drop 19 ?s)" by (simp del: drop_append)
    also have "\<dots> = zpad 6 (microsecond t)" unfolding f(7) using False by simp
    finally have "take 6 (drop 20 ?s) = zpad 6 (microsecond t)" using l6 by simp
    moreover from f(8) False l6 have "\<not> length ?s \<le> 19" by simp
    ultimately show ?thesis by (simp add: int_of_digits_zpad)
  qed
  have "fromisoformat ?s = t"
    unfolding fromisoformat_def f(1-6) micro int_of_digits_zpad by simp
  with s show ?thesis by simp
qed

lemma those_map_map:
  "(\<And>x. x \<in> set xs \<Longrightarrow> f (g x) = Some (h x)) \<Longrightarrow> those (map f (map g xs)) = Some (map h xs)"
  by (induction xs) simp_all

lemma parse_str_Severity: "parse_Severity (str_Severity sev) = Some sev"
  by (cases sev) (simp_all add: parse_Severity_def)

lemma reimport_vulnerability_json: "reimport_vulnerability (vulnerability_json v) = Some v"
proof -
  have "those (map (\<lambda>x. get_str (Some x)) (map JStr (vuln_evidence v))) = Some (map id (vuln_evidence v))"
    by (rule those_map_map) simp
  then show ?thesis
    by (simp add: reimport_vulnerability_def vulnerability_json_def parse_str_Severity)
qed

lemma reimport_result_json: "reimport_result (result_json r) = Some (exported_result r)"
proof -
  have "those (map reimport_vulnerability (map vulnerability_json (vulnerabilities r)))
          = Some (map id (vulnerabilities r))"
    by (rule those_map_map) (simp add: reimport_vulnerability_json)
  then show ?thesis
    by (simp add: reimport_result_def result_json_def exported_result_def)
qed

lemma get_time_isoformat:
  "\<forall>t. ot = Some t \<longrightarrow> datetime_ok t \<Longrightarrow>
     get_time (Some (case ot of Some t \<Rightarrow> JStr (isoformat t) | None \<Rightarrow> JNull)) = Some ot"
  by (cases ot) (simp_all add: isoformat_def fromisoformat_isoformat_sep)

lemma get_time_str_datetime:
  "\<forall>t. ot = Some t \<longrightarrow> datetime_ok t \<Longrightarrow>
     get_time (Some (case ot of Some t \<Rightarrow> JStr (str_datetime t) | None \<Rightarrow> JNull)) = Some ot"
  by (cases ot) (simp_all add: str_datetime_def fromisoformat_isoformat_sep)

lemma reimport_summary_json:
  assumes "\<forall>t. summary_scan_time sm = Some t \<longrightarrow> datetime_ok t"
  shows "reimport_summary (summary_json sm) = Some sm"
  by (simp add: reimport_summary_def summary_json_def get_time_str_datetime[OF assms])

lemma export_json_fold:
  "foldl (\<lambda>export_data result.
                map (\<lambda>(key, val).
                       if key = ''results''
                       then (key, (case val of
                               JArr rs \<Rightarrow> JArr (rs @
                                 [JObj [(''server'', JStr (server_name result)),
                                        (''tool'', JStr (tool_name result)),
                                        (''risk_level'', JStr (risk_level result)),
                                        (''risk_score'', JInt (risk_score result)),
                                        (''vulnerabilities'',
                                           JArr (map vulnerability_json (vulnerabilities result)))]])
                             | other \<Rightarrow> other))
                       else (key, val))
                  export_data)
     [(''scan_time'', a), (''config_file'', b), (''summary'', c), (''results'', JArr acc)] rs
   = [(''scan_time'', a), (''config_file'', b), (''summary'', c),
      (''results'', JArr (acc @ map result_json rs))]"
  by (induction rs arbitrary: acc) (simp_all add: result_json_def)

lemma export_json_document:
  "fst (export_json self output_path) =
     JObj [(''scan_time'', (case scan_time self of
                              Some t \<Rightarrow> JStr (isoformat t) | None \<Rightarrow> JNull)),
           (''config_file'', JStr (config_path self)),
           (''summary'', summary_json (get_summary self)),
           (''results'', JArr (map result_json (results self)))]"
  unfolding export_json_def Let_def export_json_fold by simp

text \<open>
  C9: reading the exported document back gives the scan time, the configuration path,
  the summary (server count, tool count, the five level counts and the scan time) and,
  for every result in order, the server, the tool, the risk level, the risk score and
  the vulnerabilities, each equal to the value the scanner holds: the summary counts and
  the risk levels of the tools are reproduced, and no field of the export format loses
  information.
\<close>

theorem C9_export_reimport:
  assumes "\<forall>t. scan_time s = Some t \<longrightarrow> datetime_ok t"
  shows "reimport (fst (export_json s output_path))
           = Some \<lparr>ri_scan_time = scan_time s, ri_config_file = config_path s,
                   ri_summary = get_summary s, ri_results = map exported_result (results s)\<rparr>
   \<and> map_option ri_summary (reimport (fst (export_json s output_path))) = Some (get_summary s)
   \<and> map_option (\<lambda>d. map rr_risk_level (ri_results d)) (reimport (fst (export_json s output_path)))
       = Some (map risk_level (results s))"
proof -
  have t: "get_time (Some (case scan_time s of Some t \<Rightarrow> JStr (isoformat t) | None \<Rightarrow> JNull))
      = Some (scan_time s)"
    by (rule get_time_isoformat[OF assms])
  from assms have "\<forall>t. summary_scan_time (get_summary s) = Some t \<longrightarrow> datetime_ok t"
    by (simp add: get_summary_def)
  then have sm: "reimport_summary (summary_json (get_summary s)) = Some (get_summary s)"
    by (rule reimport_summary_json)
  have rs: "those (map reimport_result (map result_json (results s)))
      = Some (map exported_result (results s))"
    by (rule those_map_map) (rule reimport_result_json)
  have main: "reimport (fst (export_json s output_path))
           = Some \<lparr>ri_scan_time = scan_time s, ri_config_file = config_path s,
                   ri_summary = get_summary s, ri_results = map exported_result (results s)\<rparr>"
    unfolding export_json_document reimport_def using rs by (simp add: t sm)
  show ?thesis unfolding main by (simp add: exported_result_def comp_def)
qed

theorem C9_export_reimport_witness:
  "datetime_ok demo_now
   \<and> scan_time demo_scanner = Some demo_now
   \<and> map_option ri_summary (reimport (fst (export_json demo_scanner ''out.json'')))
       = Some \<lparr>total_servers = 2, total_tools = 2, critical = 1, high = 1, medium = 0,
                low = 0, safe = 0, summary_scan_time = Some demo_now\<rparr>
   \<and> map_option (\<lambda>d. map rr_risk_level (ri_results d))
         (reimport (fst (export_json demo_scanner ''out.json''))) = Some [''CRITICAL'', ''HIGH'']"
proof -
  have ok: "datetime_ok demo_now"
    by (simp add: datetime_ok_def demo_now_def)
  have st: "scan_time demo_scanner = Some demo_now"
    by (simp add: demo_state)
  have sv: "length (servers demo_scanner) = 2"
    by (simp add: demo_state)
  have sm: "get_summary demo_scanner
      = \<lparr>total_servers = 2, total_tools = 2, critical = 1, high = 1, medium = 0,
         low = 0, safe = 0, summary_scan_time = Some demo_now\<rparr>"
    by (simp add: get_summary_def count_is_filter demo_results demo_level_send
          demo_level_unnamed sv st)
  from ok st have h: "\<forall>t. scan_time demo_scanner = Some t \<longrightarrow> datetime_ok t" by simp
  from C9_export_reimport[OF h, of "''out.json''"] ok st show ?thesis
    by (simp add: sm demo_results demo_level_send demo_level_unnamed exported_result_def)
qed

end
